theory Spec2Isabelle
  imports Main "HOL-Library.AList" "HOL-Library.Multiset"
begin

section \<open>Data model\<close>

text \<open>
  The template manager (\<^verbatim>\<open>TemplateManager\<close>) expands a template into tasks. Values of type
  \<^verbatim>\<open>unknown\<close> (variable values, metadata entries) are JSON-like values; a
  \<^verbatim>\<open>Record<string, unknown>\<close> used as a variable context is a partial map from names, and
  metadata is an association list of entries.
\<close>

datatype jvalue =
    JNull
  | JBool bool
  | JNum int
  | JStr string
  | JArr "jvalue list"
  | JObj "(string \<times> jvalue) list"

type_synonym variables = "string \<rightharpoonup> jvalue"
type_synonym metadata = "(string \<times> jvalue) list"

record template_variable =
  name :: string
  required :: bool
  default_value :: "jvalue option"

record template_task =
  path :: string
  title :: string
  ttype :: string
  description :: "string option"
  dependencies :: "string list option"
  metadata :: "metadata option"

record task_template =
  t_id :: string
  t_variables :: "template_variable list"
  t_tasks :: "template_task list"

record template_ref =
  template :: string
  ref_variables :: variables

record instantiation_options =
  templateId :: string
  opt_variables :: variables
  parentPath :: "string option"

datatype TaskType = TASK | MILESTONE

text \<open>The argument of \<^verbatim>\<open>taskManager.createTask\<close>.\<close>

record create_task_input =
  c_path :: string
  c_name :: string
  c_type :: TaskType
  c_description :: "string option"
  c_metadata :: "metadata option"
  c_dependencies :: "string list option"
  c_parentPath :: "string option"

text \<open>
  The collaborators of the manager whose code is outside the modelled file are parameters:
  the path utilities, the interpolator, the metadata transformer, the template storage
  (\<open>None\<close> when the template does not exist) and the decision of the task store to reject a
  creation, which may depend on the tasks stored so far and on the input.
\<close>

record collaborators =
  normalizePath :: "string \<Rightarrow> string"
  joinPath :: "string \<Rightarrow> string \<Rightarrow> string"
  interpolateString :: "string \<Rightarrow> variables \<Rightarrow> string"
  interpolateMetadata :: "metadata \<Rightarrow> variables \<Rightarrow> metadata"
  transform :: "metadata \<Rightarrow> metadata"
  extractTemplateRef :: "metadata \<Rightarrow> template_ref option"
  removeTemplateRef :: "metadata \<Rightarrow> metadata"
  getTemplate :: "string \<Rightarrow> task_template option"
  createRejected :: "create_task_input list \<Rightarrow> create_task_input \<Rightarrow> bool"

section \<open>Paths\<close>

text \<open>\<^verbatim>\<open>s.split('/')\<close>: the segments between slashes; never an empty list.\<close>

fun split_slash :: "string \<Rightarrow> string list" where
  "split_slash [] = [Nil]"
| "split_slash (c # cs) =
     (if c = CHR ''/'' then [] # split_slash cs
      else (let r = split_slash cs in (c # hd r) # tl r))"

text \<open>\<^verbatim>\<open>parts.join('/')\<close>.\<close>

fun join_slash :: "string list \<Rightarrow> string" where
  "join_slash [] = []"
| "join_slash [s] = s"
| "join_slash (s # t # ss) = s @ ''/'' @ join_slash (t # ss)"

text \<open>
  The expression \<^verbatim>\<open>parentPath ? normalizePath(joinPath(parentPath, interpolateString(s, variables)))
  : normalizePath(interpolateString(s, variables))\<close>, which the sorter and the materializer apply
  to blueprint paths and to dependencies. An empty \<^verbatim>\<open>parentPath\<close> is falsy, like an absent one.
\<close>

definition resolvePath :: "collaborators \<Rightarrow> string option \<Rightarrow> variables \<Rightarrow> string \<Rightarrow> string" where
  "resolvePath C pp vars s =
     (case pp of
        None \<Rightarrow> normalizePath C (interpolateString C s vars)
      | Some p \<Rightarrow>
          if p \<noteq> [] then normalizePath C (joinPath C p (interpolateString C s vars))
          else normalizePath C (interpolateString C s vars))"

text \<open>
  The parent derived from a normalized path by the sorter:
  \<^verbatim>\<open>pathParts.length > 1 ? pathParts.slice(0, -1).join('/') : undefined\<close>.
\<close>

definition implicitParent :: "string \<Rightarrow> string option" where
  "implicitParent np =
     (let pathParts = split_slash np
      in if length pathParts > 1 then Some (join_slash (butlast pathParts)) else None)"

section \<open>The dependency graph\<close>

text \<open>
  \<^verbatim>\<open>Map<string, Set<string>>\<close> keeps insertion order, both of its keys and inside each set, and
  the traversal iterates in that order: the graph is an association list with distinct keys, each
  set a list without repetition. \<^verbatim>\<open>Map.set\<close> on a present key replaces the value in place, on an
  absent key appends (\<^const>\<open>AList.update\<close>).
\<close>

type_synonym graph = "(string \<times> string list) list"

definition set_add :: "string \<Rightarrow> string list \<Rightarrow> string list" where
  "set_add x xs = (if x \<in> set xs then xs else xs @ [x])"

definition has :: "graph \<Rightarrow> string \<Rightarrow> bool" where
  "has g k = (map_of g k \<noteq> None)"

text \<open>\<^verbatim>\<open>if (!graph.has(n)) graph.set(n, new Set())\<close>\<close>

definition ensureNode :: "string \<Rightarrow> graph \<Rightarrow> graph" where
  "ensureNode n g = (if has g n then g else AList.update n [] g)"

text \<open>\<^verbatim>\<open>graph.get(p)?.add(n)\<close>\<close>

definition addEdge :: "string \<Rightarrow> string \<Rightarrow> graph \<Rightarrow> graph" where
  "addEdge p n g =
     (case map_of g p of None \<Rightarrow> g | Some s \<Rightarrow> AList.update p (set_add n s) g)"

text \<open>The inner loop over \<^verbatim>\<open>task.dependencies\<close>.\<close>

fun addDependencies ::
  "collaborators \<Rightarrow> variables \<Rightarrow> string option \<Rightarrow> string \<Rightarrow> string list \<Rightarrow> graph \<Rightarrow> graph" where
  "addDependencies C vars pp np [] g = g"
| "addDependencies C vars pp np (dep # deps) g =
     (let normalizedDep = resolvePath C pp vars dep
      in addDependencies C vars pp np deps (addEdge np normalizedDep (ensureNode normalizedDep g)))"

text \<open>One round of the outer loop: the blueprint is entered in both maps, then its edges.\<close>

definition addTask ::
  "collaborators \<Rightarrow> variables \<Rightarrow> string option \<Rightarrow> template_task \<Rightarrow>
   (string \<rightharpoonup> template_task) \<times> graph \<Rightarrow> (string \<rightharpoonup> template_task) \<times> graph" where
  "addTask C vars pp task st =
     (let (taskMap, g) = st;
          normalizedPath = resolvePath C pp vars (path task);
          taskMap1 = taskMap(normalizedPath \<mapsto> task);
          g1 = AList.update normalizedPath [] g;
          g2 = (case dependencies task of
                  None \<Rightarrow> g1
                | Some deps \<Rightarrow> addDependencies C vars pp normalizedPath deps g1);
          g3 = (case implicitParent normalizedPath of
                  None \<Rightarrow> g2
                | Some parent \<Rightarrow> addEdge normalizedPath parent (ensureNode parent g2))
      in (taskMap1, g3))"

fun buildGraph ::
  "collaborators \<Rightarrow> variables \<Rightarrow> string option \<Rightarrow> template_task list \<Rightarrow>
   (string \<rightharpoonup> template_task) \<times> graph \<Rightarrow> (string \<rightharpoonup> template_task) \<times> graph" where
  "buildGraph C vars pp [] st = st"
| "buildGraph C vars pp (task # tasks) st = buildGraph C vars pp tasks (addTask C vars pp task st)"

section \<open>The traversal\<close>

text \<open>\<^verbatim>\<open>graph.get(path) || []\<close>\<close>

definition edgesOf :: "graph \<Rightarrow> string \<Rightarrow> string list" where
  "edgesOf g p = (case map_of g p of None \<Rightarrow> [] | Some ds \<Rightarrow> ds)"

text \<open>
  \<^verbatim>\<open>visit\<close> is a recursive closure over \<^verbatim>\<open>visited\<close> and \<^verbatim>\<open>sorted\<close>; the model passes both as a pair.
  The first argument bounds the depth of the recursion: \<open>None\<close> means that the bound was reached,
  so that a traversal that recurses without end is one that is \<open>None\<close> at every bound.
\<close>

function (sequential) visit :: "nat \<Rightarrow> graph \<Rightarrow> string set \<times> string list \<Rightarrow> string \<Rightarrow> (string set \<times> string list) option"
  and visitDeps :: "nat \<Rightarrow> graph \<Rightarrow> string set \<times> string list \<Rightarrow> string list \<Rightarrow> (string set \<times> string list) option" where
  "visit 0 g st p = None"
| "visit (Suc n) g st p =
     (if p \<in> fst st then Some st
      else (case visitDeps n g (insert p (fst st), snd st) (edgesOf g p) of
              None \<Rightarrow> None
            | Some st' \<Rightarrow> Some (fst st', snd st' @ [p])))"
| "visitDeps n g st [] = Some st"
| "visitDeps n g st (dep # deps) =
     (case visit n g st dep of
        None \<Rightarrow> None
      | Some st' \<Rightarrow> visitDeps n g st' deps)"
  by pat_completeness auto
termination
  by (relation "inv_image (less_than <*lex*> less_than <*lex*> less_than)
        (\<lambda>x. case x of Inl (n, g, st, p) \<Rightarrow> (n, 0::nat, 0::nat)
                     | Inr (n, g, st, ds) \<Rightarrow> (n, 1, length ds))") auto

text \<open>The loop \<^verbatim>\<open>for (const path of graph.keys()) visit(path)\<close>.\<close>

fun visitAll :: "nat \<Rightarrow> graph \<Rightarrow> string set \<times> string list \<Rightarrow> string list \<Rightarrow> (string set \<times> string list) option" where
  "visitAll n g st [] = Some st"
| "visitAll n g st (k # ks) =
     (case visit n g st k of
        None \<Rightarrow> None
      | Some st' \<Rightarrow> visitAll n g st' ks)"

text \<open>The two maps after the first loop of \<^verbatim>\<open>sortTasks\<close>.\<close>

definition taskMapOf ::
  "collaborators \<Rightarrow> template_task list \<Rightarrow> variables \<Rightarrow> string option \<Rightarrow> string \<rightharpoonup> template_task" where
  "taskMapOf C tasks vars pp = fst (buildGraph C vars pp tasks (Map.empty, []))"

definition dependencyGraph ::
  "collaborators \<Rightarrow> template_task list \<Rightarrow> variables \<Rightarrow> string option \<Rightarrow> graph" where
  "dependencyGraph C tasks vars pp = snd (buildGraph C vars pp tasks (Map.empty, []))"

text \<open>The array \<^verbatim>\<open>sorted\<close> at the end of the traversal.\<close>

definition sortedPaths ::
  "nat \<Rightarrow> collaborators \<Rightarrow> template_task list \<Rightarrow> variables \<Rightarrow> string option \<Rightarrow> string list option" where
  "sortedPaths n C tasks vars pp =
     (let g = dependencyGraph C tasks vars pp
      in map_option snd (visitAll n g ({}, []) (map fst g)))"

text \<open>\<^verbatim>\<open>sorted.map(path => taskMap.get(path)).filter(task => task !== undefined)\<close>\<close>

definition sortTasks ::
  "nat \<Rightarrow> collaborators \<Rightarrow> template_task list \<Rightarrow> variables \<Rightarrow> string option \<Rightarrow> template_task list option" where
  "sortTasks n C tasks vars pp =
     map_option (List.map_filter (taskMapOf C tasks vars pp)) (sortedPaths n C tasks vars pp)"

section \<open>The manager and the task store\<close>

text \<open>
  The mutable state an instantiation works on: the set \<^verbatim>\<open>processingTemplates\<close> of the manager
  and the contents of the task store in creation order. Two ghost fields record what happened,
  in order: the calls made to the template storage and to the task store, and the paths of the
  parent tasks that the materializer created because they were missing.
\<close>

datatype store_call =
    GetTemplate string
  | GetTask string
  | CreateTask create_task_input

record manager =
  processingTemplates :: "string set"
  stored :: "create_task_input list"
  calls :: "store_call list"
  autoGenerated :: "string list"

datatype error =
    CircularTemplateReference string
  | MissingVariables "string list"
  | TemplateNotFound string
  | TaskCreationFailed string

type_synonym outcome = "(error + unit) \<times> manager"

text \<open>
  Modelled from the spec: \<^verbatim>\<open>taskManager.getTask(path)\<close> of the task store (outside the modelled
  file) returns the task at the path or nothing.
\<close>

definition getTask :: "manager \<Rightarrow> string \<Rightarrow> create_task_input option" where
  "getTask m p = find (\<lambda>t. c_path t = p) (stored m)"

text \<open>
  Modelled from the spec: \<^verbatim>\<open>taskManager.createTask(input)\<close> of the task store (outside the
  modelled file) creates the task or fails; whether it fails is decided by the collaborator
  \<open>createRejected\<close>. The call is logged in both cases.
\<close>

definition createTask :: "collaborators \<Rightarrow> manager \<Rightarrow> create_task_input \<Rightarrow> outcome" where
  "createTask C m input =
     (if createRejected C (stored m) input
      then (Inl (TaskCreationFailed (c_path input)), m\<lparr>calls := calls m @ [CreateTask input]\<rparr>)
      else (Inr (), m\<lparr>stored := stored m @ [input], calls := calls m @ [CreateTask input]\<rparr>))"

section \<open>Variables\<close>

text \<open>
  The context is a plain object. \<^verbatim>\<open>name in variables\<close> holds for the keys the object was
  given and also for the properties that every plain object inherits from
  \<^verbatim>\<open>Object.prototype\<close>; the map holds the former, the list below names the latter.
\<close>

definition objectPrototypeKeys :: "string list" where
  "objectPrototypeKeys =
     [''constructor'', ''__defineGetter__'', ''__defineSetter__'', ''hasOwnProperty'',
      ''__lookupGetter__'', ''__lookupSetter__'', ''isPrototypeOf'', ''propertyIsEnumerable'',
      ''toString'', ''valueOf'', ''__proto__'', ''toLocaleString'']"

definition inOperator :: "string \<Rightarrow> variables \<Rightarrow> bool" where
  "inOperator k vars \<longleftrightarrow> vars k \<noteq> None \<or> k \<in> set objectPrototypeKeys"

text \<open>
  \<^verbatim>\<open>const variables = { ...options.variables };
  for (const v of template.variables)
    if (!(v.name in variables) && 'default' in v) variables[v.name] = v.default;\<close>
  A declaration carries a default when its \<open>default_value\<close> is present.
\<close>

fun applyDefaults :: "template_variable list \<Rightarrow> variables \<Rightarrow> variables" where
  "applyDefaults [] vars = vars"
| "applyDefaults (v # vs) vars =
     applyDefaults vs
       (if \<not> inOperator (name v) vars \<and> default_value v \<noteq> None
        then vars(name v := default_value v) else vars)"

text \<open>
  Modelled from the spec: \<^verbatim>\<open>interpolator.validateRequiredVariables(decls, ctx)\<close> (outside the
  modelled file) returns the list of required variable names missing from the context.
\<close>

definition validateRequiredVariables :: "template_variable list \<Rightarrow> variables \<Rightarrow> string list" where
  "validateRequiredVariables decls ctx =
     map name (filter (\<lambda>v. required v \<and> ctx (name v) = None) decls)"

section \<open>Materializing one blueprint\<close>

text \<open>\<^verbatim>\<open>task.metadata ? transformer.transform(interpolator.interpolateMetadata(task.metadata, variables)) : undefined\<close>\<close>

definition transformedMetadata :: "collaborators \<Rightarrow> template_task \<Rightarrow> variables \<Rightarrow> metadata option" where
  "transformedMetadata C task vars =
     map_option (\<lambda>md. transform C (interpolateMetadata C md vars)) (metadata task)"

text \<open>\<^verbatim>\<open>transformedMetadata && transformer.extractTemplateRef(transformedMetadata)\<close>\<close>

definition templateRefOf :: "collaborators \<Rightarrow> template_task \<Rightarrow> variables \<Rightarrow> template_ref option" where
  "templateRefOf C task vars =
     (case transformedMetadata C task vars of None \<Rightarrow> None | Some md \<Rightarrow> extractTemplateRef C md)"

text \<open>
  The argument of the \<^verbatim>\<open>createTask\<close> call for the blueprint itself, in both branches; the
  branches differ in the metadata only. An empty description is falsy and becomes undefined.
\<close>

definition taskInput ::
  "collaborators \<Rightarrow> template_task \<Rightarrow> variables \<Rightarrow> string option \<Rightarrow> metadata option \<Rightarrow> create_task_input" where
  "taskInput C task vars pp md =
     \<lparr> c_path = resolvePath C pp vars (path task),
       c_name = interpolateString C (title task) vars,
       c_type = (if ttype task = ''TASK'' then TASK else MILESTONE),
       c_description =
         (case description task of
            None \<Rightarrow> None
          | Some d \<Rightarrow> if d \<noteq> [] then Some (interpolateString C d vars) else None),
       c_metadata = md,
       c_dependencies = map_option (map (resolvePath C pp vars)) (dependencies task),
       c_parentPath = implicitParent (resolvePath C pp vars (path task)) \<rparr>"

text \<open>The argument of the \<^verbatim>\<open>createTask\<close> call for a missing parent.\<close>

definition parentInput :: "string \<Rightarrow> string \<Rightarrow> create_task_input" where
  "parentInput implicitParentPath normalizedPath =
     (let pathParts = split_slash normalizedPath
      in \<lparr> c_path = implicitParentPath,
            c_name = pathParts ! (length pathParts - 2),
            c_type = MILESTONE,
            c_description = Some (''Auto-generated parent task for '' @ normalizedPath),
            c_metadata = Some [(''autoGenerated'', JBool True), (''childPath'', JStr normalizedPath)],
            c_dependencies = None,
            c_parentPath = None \<rparr>)"

text \<open>
  \<^verbatim>\<open>if (implicitParentPath) { const parentTask = await getTask(implicitParentPath);
  if (!parentTask) await createTask({...}) }\<close>; an empty parent path is falsy.
\<close>

definition ensureParent :: "collaborators \<Rightarrow> manager \<Rightarrow> string \<Rightarrow> outcome" where
  "ensureParent C m normalizedPath =
     (case implicitParent normalizedPath of
        None \<Rightarrow> (Inr (), m)
      | Some implicitParentPath \<Rightarrow>
          if implicitParentPath = [] then (Inr (), m)
          else
            (let m1 = m\<lparr>calls := calls m @ [GetTask implicitParentPath]\<rparr>
             in case getTask m1 implicitParentPath of
                  Some parentTask \<Rightarrow> (Inr (), m1)
                | None \<Rightarrow>
                    (case createTask C m1 (parentInput implicitParentPath normalizedPath) of
                       (Inl e, m2) \<Rightarrow> (Inl e, m2)
                     | (Inr u, m2) \<Rightarrow>
                         (Inr u, m2\<lparr>autoGenerated := autoGenerated m2 @ [implicitParentPath]\<rparr>))))"

section \<open>Instantiation\<close>

text \<open>
  \<^verbatim>\<open>instantiateTemplate\<close> and \<^verbatim>\<open>processTemplateTask\<close> call each other; \<open>instantiateBody\<close> is the
  \<^verbatim>\<open>try\<close> block and \<open>processTasks\<close> its loop over the sorted blueprints. An exception is the
  result \<open>Inl\<close>, which ends every enclosing loop; the \<^verbatim>\<open>finally\<close> clause runs on both results.
  The first argument bounds the depth of the calls, as for \<open>visit\<close>: \<open>None\<close> means that the
  bound was reached.
\<close>

function (sequential)
  instantiateTemplate :: "nat \<Rightarrow> collaborators \<Rightarrow> manager \<Rightarrow> instantiation_options \<Rightarrow> outcome option"
  and instantiateBody :: "nat \<Rightarrow> collaborators \<Rightarrow> manager \<Rightarrow> instantiation_options \<Rightarrow> outcome option"
  and processTasks ::
    "nat \<Rightarrow> collaborators \<Rightarrow> manager \<Rightarrow> template_task list \<Rightarrow> variables \<Rightarrow> string option \<Rightarrow> outcome option"
  and processTemplateTask ::
    "nat \<Rightarrow> collaborators \<Rightarrow> manager \<Rightarrow> template_task \<Rightarrow> variables \<Rightarrow> string option \<Rightarrow> outcome option"
where
  "instantiateTemplate 0 C m opts = None"
| "instantiateTemplate (Suc n) C m opts =
     (if templateId opts \<in> processingTemplates m
      then Some (Inl (CircularTemplateReference (templateId opts)), m)
      else
        (case instantiateBody n C
                (m\<lparr>processingTemplates := insert (templateId opts) (processingTemplates m)\<rparr>) opts of
           None \<Rightarrow> None
         | Some (r, m') \<Rightarrow>
             Some (r, m'\<lparr>processingTemplates := processingTemplates m' - {templateId opts}\<rparr>)))"
| "instantiateBody n C m opts =
     (let m1 = m\<lparr>calls := calls m @ [GetTemplate (templateId opts)]\<rparr>
      in case getTemplate C (templateId opts) of
           None \<Rightarrow> Some (Inl (TemplateNotFound (templateId opts)), m1)
         | Some tmpl \<Rightarrow>
             (let variables = applyDefaults (t_variables tmpl) (opt_variables opts);
                  missingVars = validateRequiredVariables (t_variables tmpl) variables
              in if missingVars \<noteq> [] then Some (Inl (MissingVariables missingVars), m1)
                 else
                   (case sortTasks n C (t_tasks tmpl) variables (parentPath opts) of
                      None \<Rightarrow> None
                    | Some sortedTasks \<Rightarrow>
                        processTasks n C m1 sortedTasks variables (parentPath opts))))"
| "processTasks n C m [] vars pp = Some (Inr (), m)"
| "processTasks n C m (task # rest) vars pp =
     (case processTemplateTask n C m task vars pp of
        None \<Rightarrow> None
      | Some (Inl e, m') \<Rightarrow> Some (Inl e, m')
      | Some (Inr u, m') \<Rightarrow> processTasks n C m' rest vars pp)"
| "processTemplateTask n C m task vars pp =
     (let normalizedPath = resolvePath C pp vars (path task);
          transformed = transformedMetadata C task vars;
          templateRef = templateRefOf C task vars
      in case ensureParent C m normalizedPath of
           (Inl e, m1) \<Rightarrow> Some (Inl e, m1)
         | (Inr u, m1) \<Rightarrow>
             (case templateRef of
                Some ref \<Rightarrow>
                  (case createTask C m1
                          (taskInput C task vars pp (map_option (removeTemplateRef C) transformed)) of
                     (Inl e, m2) \<Rightarrow> Some (Inl e, m2)
                   | (Inr u, m2) \<Rightarrow>
                       instantiateTemplate n C m2
                         \<lparr>templateId = template ref, opt_variables = ref_variables ref,
                          parentPath = Some normalizedPath\<rparr>)
              | None \<Rightarrow> Some (createTask C m1 (taskInput C task vars pp transformed))))"
  by pat_completeness auto
termination
  by (relation "inv_image (less_than <*lex*> less_than <*lex*> less_than)
        (\<lambda>x. case x of
           Inl (Inl (n, C, m, opts)) \<Rightarrow> (n, 0::nat, 0::nat)
         | Inl (Inr (n, C, m, opts)) \<Rightarrow> (n, 4, 0)
         | Inr (Inl (n, C, m, ts, vars, pp)) \<Rightarrow> (n, 3, length ts)
         | Inr (Inr (n, C, m, t, vars, pp)) \<Rightarrow> (n, 1, 0))") auto

section \<open>Notions used in the statements\<close>

text \<open>The node of a blueprint: its interpolated, joined and normalized path.\<close>

definition nodeOf :: "collaborators \<Rightarrow> variables \<Rightarrow> string option \<Rightarrow> template_task \<Rightarrow> string" where
  "nodeOf C vars pp t = resolvePath C pp vars (path t)"

text \<open>The nodes named by the explicit dependencies of a blueprint.\<close>

definition dependencyNodes ::
  "collaborators \<Rightarrow> variables \<Rightarrow> string option \<Rightarrow> template_task \<Rightarrow> string list" where
  "dependencyNodes C vars pp t =
     (case dependencies t of None \<Rightarrow> [] | Some ds \<Rightarrow> map (resolvePath C pp vars) ds)"

text \<open>All the nodes a blueprint depends on: the explicit ones and the derived parent.\<close>

definition targets :: "collaborators \<Rightarrow> variables \<Rightarrow> string option \<Rightarrow> template_task \<Rightarrow> string list" where
  "targets C vars pp t =
     dependencyNodes C vars pp t @
     (case implicitParent (nodeOf C vars pp t) of None \<Rightarrow> [] | Some q \<Rightarrow> [q])"

text \<open>The dependency relation of a set of blueprints, and that of a graph.\<close>

definition blueprintEdges ::
  "collaborators \<Rightarrow> variables \<Rightarrow> string option \<Rightarrow> template_task list \<Rightarrow> (string \<times> string) set" where
  "blueprintEdges C vars pp ts =
     {(p, q). \<exists>t \<in> set ts. p = nodeOf C vars pp t \<and> q \<in> set (targets C vars pp t)}"

definition edges :: "graph \<Rightarrow> (string \<times> string) set" where
  "edges g = {(p, q). q \<in> set (edgesOf g p)}"

text \<open>Every node of the list comes after all the nodes it has an edge to.\<close>

definition dep_ordered :: "graph \<Rightarrow> string list \<Rightarrow> bool" where
  "dep_ordered g S = (\<forall>i < length S. set (edgesOf g (S ! i)) \<subseteq> set (take i S))"

text \<open>
  What the first loop of \<^verbatim>\<open>sortTasks\<close> maintains, after the blueprints \<open>dn\<close>: the task map
  holds for each node the last blueprint declared there, the edges of such a node are those of
  that blueprint, and every other node that some blueprint depends on is present without edges.
\<close>

definition graph_inv ::
  "collaborators \<Rightarrow> variables \<Rightarrow> string option \<Rightarrow> template_task list \<Rightarrow>
   (string \<rightharpoonup> template_task) \<times> graph \<Rightarrow> bool" where
  "graph_inv C vars pp dn st \<longleftrightarrow>
     fst st = map_of (rev (map (\<lambda>t. (nodeOf C vars pp t, t)) dn)) \<and>
     (\<forall>q t. fst st q = Some t \<longrightarrow>
        (\<exists>s. map_of (snd st) q = Some s \<and> set s = set (targets C vars pp t))) \<and>
     (\<forall>q. fst st q = None \<longrightarrow>
        map_of (snd st) q =
          (if \<exists>t \<in> set dn. q \<in> set (targets C vars pp t) then Some [] else None)) \<and>
     distinct (map fst (snd st))"

section \<open>Example inputs\<close>

text \<open>
  Collaborators that leave strings alone: paths are joined with a slash, nothing is interpolated,
  no metadata carries a reference, no template exists and the store accepts every task.
\<close>

definition plainCollaborators :: collaborators where
  "plainCollaborators =
     \<lparr> normalizePath = (\<lambda>p. p), joinPath = (\<lambda>a b. a @ ''/'' @ b),
       interpolateString = (\<lambda>s vars. s), interpolateMetadata = (\<lambda>md vars. md),
       transform = (\<lambda>md. md), extractTemplateRef = (\<lambda>md. None), removeTemplateRef = (\<lambda>md. md),
       getTemplate = (\<lambda>i. None), createRejected = (\<lambda>ts i. False) \<rparr>"

definition blueprint :: "string \<Rightarrow> string list \<Rightarrow> template_task" where
  "blueprint p ds =
     \<lparr> path = p, title = p, ttype = ''TASK'', description = None, dependencies = Some ds,
       metadata = None \<rparr>"

text \<open>
  The blueprints \<^verbatim>\<open>a/b/c\<close> (declared first, depending on \<^verbatim>\<open>a/b\<close>) and \<^verbatim>\<open>a/b\<close>; two blueprints
  that depend on each other; a dependency on a path that no blueprint declares; two blueprints at
  the same path.
\<close>

definition nestedExample :: "template_task list" where
  "nestedExample = [blueprint ''a/b/c'' [''a/b''], blueprint ''a/b'' []]"

definition cyclicExample :: "template_task list" where
  "cyclicExample = [blueprint ''a'' [''b''], blueprint ''b'' [''a'']]"

definition bareExample :: "template_task list" where
  "bareExample = [blueprint ''a'' [''b'', ''ext''], blueprint ''b'' []]"


section \<open>Notions used in the statements about instantiation\<close>

text \<open>The store and the record of created parents only grow.\<close>

definition grows :: "manager \<Rightarrow> manager \<Rightarrow> bool" where
  "grows m m' \<longleftrightarrow>
     (\<exists>xs. stored m' = stored m @ xs) \<and> (\<exists>ys. autoGenerated m' = autoGenerated m @ ys)"

text \<open>
  Every parent that the materializer created is recorded once, and its task is in the store.
\<close>

definition parents_recorded :: "manager \<Rightarrow> bool" where
  "parents_recorded m \<longleftrightarrow>
     distinct (autoGenerated m) \<and> set (autoGenerated m) \<subseteq> c_path ` set (stored m)"

text \<open>The paths of the tasks in the store when a call has returned.\<close>

definition createdPaths :: "outcome option \<Rightarrow> string list" where
  "createdPaths res = (case res of None \<Rightarrow> [] | Some (r, m') \<Rightarrow> map c_path (stored m'))"

text \<open>
  What the parent step adds to the store for a task at \<open>np\<close>: the generated parent when the
  derived parent path is non-empty and the store has no task there, nothing otherwise.
\<close>

definition missingParent :: "manager \<Rightarrow> string \<Rightarrow> create_task_input list" where
  "missingParent m np =
     (case implicitParent np of
        None \<Rightarrow> []
      | Some q \<Rightarrow> if q \<noteq> [] \<and> q \<notin> c_path ` set (stored m) then [parentInput q np] else [])"

text \<open>A store that rejects no creation.\<close>

definition accepting :: "collaborators \<Rightarrow> bool" where
  "accepting C \<longleftrightarrow> (\<forall>ts i. \<not> createRejected C ts i)"

section \<open>Example templates\<close>

text \<open>
  \<^verbatim>\<open>T\<close>: one blueprint at \<^verbatim>\<open>x/y/z\<close>. \<^verbatim>\<open>S\<close>: two blueprints under \<^verbatim>\<open>x/y\<close>. \<^verbatim>\<open>R\<close>: a required variable
  without default. \<^verbatim>\<open>T1\<close>: a blueprint whose metadata refers back to \<^verbatim>\<open>T1\<close>. \<^verbatim>\<open>N1\<close>: a blueprint
  of another type than \<^verbatim>\<open>TASK\<close> whose metadata refers to \<^verbatim>\<open>N2\<close>. The reference is the metadata entry
  \<^verbatim>\<open>templateRef\<close>.
\<close>

definition exampleTemplates :: "string \<Rightarrow> task_template option" where
  "exampleTemplates i =
     (if i = ''T'' then Some \<lparr>t_id = ''T'', t_variables = [], t_tasks = [blueprint ''x/y/z'' []]\<rparr>
      else if i = ''S'' then
        Some \<lparr>t_id = ''S'', t_variables = [],
              t_tasks = [blueprint ''x/y/a'' [], blueprint ''x/y/b'' []]\<rparr>
      else if i = ''R'' then
        Some \<lparr>t_id = ''R'',
              t_variables = [\<lparr>name = ''y'', required = True, default_value = None\<rparr>],
              t_tasks = [blueprint ''x'' []]\<rparr>
      else if i = ''T1'' then
        Some \<lparr>t_id = ''T1'', t_variables = [],
              t_tasks = [(blueprint ''mount'' [])\<lparr>metadata := Some [(''templateRef'', JStr ''T1'')]\<rparr>]\<rparr>
      else if i = ''N1'' then
        Some \<lparr>t_id = ''N1'', t_variables = [],
              t_tasks = [(blueprint ''mount'' [])
                           \<lparr>ttype := ''GROUP'',
                            metadata := Some [(''templateRef'', JStr ''N2''), (''owner'', JStr ''ops'')]\<rparr>]\<rparr>
      else if i = ''N2'' then
        Some \<lparr>t_id = ''N2'', t_variables = [], t_tasks = [blueprint ''leaf'' []]\<rparr>
      else None)"

definition exampleCollaborators :: collaborators where
  "exampleCollaborators =
     plainCollaborators
       \<lparr> extractTemplateRef :=
           (\<lambda>md. case map_of md ''templateRef'' of
                    Some (JStr i) \<Rightarrow> Some \<lparr>template = i, ref_variables = Map.empty\<rparr>
                  | _ \<Rightarrow> None),
         removeTemplateRef := filter (\<lambda>e. fst e \<noteq> ''templateRef''),
         getTemplate := exampleTemplates \<rparr>"

definition emptyManager :: manager where
  "emptyManager = \<lparr>processingTemplates = {}, stored = [], calls = [], autoGenerated = []\<rparr>"

definition request :: "string \<Rightarrow> instantiation_options" where
  "request i = \<lparr>templateId = i, opt_variables = Map.empty, parentPath = None\<rparr>"

text \<open>The state in which the nested call for \<^verbatim>\<open>T1\<close> finds the manager.\<close>

definition mountTask :: create_task_input where
  "mountTask =
     \<lparr>c_path = ''mount'', c_name = ''mount'', c_type = TASK, c_description = None,
      c_metadata = Some [], c_dependencies = Some [], c_parentPath = None\<rparr>"

definition inFlight :: manager where
  "inFlight =
     \<lparr>processingTemplates = {''T1''}, stored = [mountTask],
      calls = [GetTemplate ''T1'', CreateTask mountTask], autoGenerated = []\<rparr>"

text \<open>The blueprint of \<^verbatim>\<open>N1\<close>, the tasks it leads to and the manager after it.\<close>

definition groupBlueprint :: template_task where
  "groupBlueprint =
     (blueprint ''mount'' [])
       \<lparr>ttype := ''GROUP'',
        metadata := Some [(''templateRef'', JStr ''N2''), (''owner'', JStr ''ops'')]\<rparr>"

definition groupTask :: create_task_input where
  "groupTask =
     \<lparr>c_path = ''mount'', c_name = ''mount'', c_type = MILESTONE, c_description = None,
      c_metadata = Some [(''owner'', JStr ''ops'')], c_dependencies = Some [], c_parentPath = None\<rparr>"

definition leafTask :: create_task_input where
  "leafTask =
     \<lparr>c_path = ''mount/leaf'', c_name = ''leaf'', c_type = TASK, c_description = None,
      c_metadata = None, c_dependencies = Some [], c_parentPath = Some ''mount''\<rparr>"

definition mounted :: manager where
  "mounted =
     \<lparr>processingTemplates = {}, stored = [groupTask, leafTask],
      calls = [CreateTask groupTask, GetTemplate ''N2'', GetTask ''mount'', CreateTask leafTask],
      autoGenerated = []\<rparr>"

text \<open>
  The manager in which the nested call for \<^verbatim>\<open>N2\<close> starts, and the options of that call.
\<close>

definition mountedBefore :: manager where
  "mountedBefore =
     \<lparr>processingTemplates = {}, stored = [groupTask], calls = [CreateTask groupTask],
      autoGenerated = []\<rparr>"

definition nestedRequest :: instantiation_options where
  "nestedRequest = \<lparr>templateId = ''N2'', opt_variables = Map.empty, parentPath = Some ''mount''\<rparr>"

text \<open>The tasks and the managers after instantiating \<^verbatim>\<open>T\<close> and \<^verbatim>\<open>S\<close>.\<close>

definition xyParent :: "string \<Rightarrow> create_task_input" where
  "xyParent child =
     \<lparr> c_path = ''x/y'', c_name = ''y'', c_type = MILESTONE,
       c_description = Some (''Auto-generated parent task for '' @ child),
       c_metadata = Some [(''autoGenerated'', JBool True), (''childPath'', JStr child)],
       c_dependencies = None, c_parentPath = None \<rparr>"

definition xyChild :: "string \<Rightarrow> create_task_input" where
  "xyChild p =
     \<lparr> c_path = p, c_name = p, c_type = TASK, c_description = None, c_metadata = None,
       c_dependencies = Some [], c_parentPath = Some ''x/y'' \<rparr>"

definition singleResult :: manager where
  "singleResult =
     \<lparr>processingTemplates = {}, stored = [xyParent ''x/y/z'', xyChild ''x/y/z''],
      calls = [GetTemplate ''T'', GetTask ''x/y'', CreateTask (xyParent ''x/y/z''),
               CreateTask (xyChild ''x/y/z'')],
      autoGenerated = [''x/y'']\<rparr>"

definition siblingResult :: manager where
  "siblingResult =
     \<lparr>processingTemplates = {},
      stored = [xyParent ''x/y/a'', xyChild ''x/y/a'', xyChild ''x/y/b''],
      calls = [GetTemplate ''S'', GetTask ''x/y'', CreateTask (xyParent ''x/y/a''),
               CreateTask (xyChild ''x/y/a''), GetTask ''x/y'', CreateTask (xyChild ''x/y/b'')],
      autoGenerated = [''x/y'']\<rparr>"

section \<open>The traversal: frame, termination and order\<close>

lemma dep_ordered_Nil: "dep_ordered g []"
  by (simp add: dep_ordered_def)

lemma dep_ordered_snoc:
  "dep_ordered g (S @ [p]) \<longleftrightarrow> dep_ordered g S \<and> set (edgesOf g p) \<subseteq> set S"
  unfolding dep_ordered_def
  by (auto simp: less_Suc_eq nth_append)

lemma visit_frame:
  "visit n g st p = Some st' \<Longrightarrow>
     (\<exists>T. snd st' = snd st @ T) \<and> fst st \<subseteq> fst st' \<and> p \<in> fst st' \<and>
     fst st' - set (snd st') = fst st - set (snd st)"
  "visitDeps n g st ds = Some st' \<Longrightarrow>
     (\<exists>T. snd st' = snd st @ T) \<and> fst st \<subseteq> fst st' \<and> set ds \<subseteq> fst st' \<and>
     fst st' - set (snd st') = fst st - set (snd st)"
proof (induction n g st p and n g st ds arbitrary: st' and st' rule: visit_visitDeps.induct)
  case (1 g st p)
  then show ?case by simp
next
  case (2 n g st p)
  show ?case
  proof (cases "p \<in> fst st")
    case True
    with 2 show ?thesis by auto
  next
    case False
    with "2.prems" obtain st1 where
      a: "visitDeps n g (insert p (fst st), snd st) (edgesOf g p) = Some st1" and
      b: "st' = (fst st1, snd st1 @ [p])"
      by (auto split: option.splits)
    from "2.IH"[OF False a] False b show ?thesis by auto
  qed
next
  case (3 n g st)
  then show ?case by simp
next
  case (4 n g st dep deps)
  from "4.prems" obtain st1 where
    a: "visit n g st dep = Some st1" and b: "visitDeps n g st1 deps = Some st'"
    by (auto split: option.splits)
  from "4.IH"(1)[OF a] "4.IH"(2)[OF a b] show ?case by auto
qed

lemma visit_distinct:
  "visit n g st p = Some st' \<Longrightarrow> set (snd st) \<subseteq> fst st \<Longrightarrow> distinct (snd st) \<Longrightarrow>
     set (snd st') \<subseteq> fst st' \<and> distinct (snd st')"
  "visitDeps n g st ds = Some st' \<Longrightarrow> set (snd st) \<subseteq> fst st \<Longrightarrow> distinct (snd st) \<Longrightarrow>
     set (snd st') \<subseteq> fst st' \<and> distinct (snd st')"
proof (induction n g st p and n g st ds arbitrary: st' and st' rule: visit_visitDeps.induct)
  case (1 g st p)
  then show ?case by simp
next
  case (2 n g st p)
  show ?case
  proof (cases "p \<in> fst st")
    case True
    with 2 show ?thesis by auto
  next
    case False
    with "2.prems" obtain st1 where
      a: "visitDeps n g (insert p (fst st), snd st) (edgesOf g p) = Some st1" and
      b: "st' = (fst st1, snd st1 @ [p])"
      by (auto split: option.splits)
    have c: "set (snd (insert p (fst st), snd st)) \<subseteq> fst (insert p (fst st), snd st)"
      using "2.prems" by auto
    have d: "distinct (snd (insert p (fst st), snd st))"
      using "2.prems" by simp
    from "2.IH"[OF False a c d] have e: "set (snd st1) \<subseteq> fst st1" "distinct (snd st1)"
      by auto
    from visit_frame(2)[OF a] have f: "fst st1 - set (snd st1) = insert p (fst st) - set (snd st)"
      and f': "insert p (fst st) \<subseteq> fst st1"
      by auto
    from False "2.prems" have "p \<notin> set (snd st)" by auto
    with f have "p \<notin> set (snd st1)" by auto
    with e f' b show ?thesis by auto
  qed
next
  case (3 n g st)
  then show ?case by simp
next
  case (4 n g st dep deps)
  from "4.prems" obtain st1 where
    a: "visit n g st dep = Some st1" and b: "visitDeps n g st1 deps = Some st'"
    by (auto split: option.splits)
  from "4.IH"(1)[OF a] "4.prems" have "set (snd st1) \<subseteq> fst st1" "distinct (snd st1)" by auto
  with "4.IH"(2)[OF a b] show ?case by auto
qed

lemma card_keys_insert:
  assumes "p \<in> fst ` set g" "p \<notin> V" "card (fst ` set g - V) < Suc n"
  shows "card (fst ` set g - insert p V) < n"
proof -
  have fin: "finite (fst ` set g - V)" by simp
  have "p \<in> fst ` set g - V" using assms by simp
  then have "card (fst ` set g - V - {p}) < card (fst ` set g - V)"
    using fin by (meson card_Diff1_less)
  moreover have "fst ` set g - insert p V = fst ` set g - V - {p}" by auto
  ultimately show ?thesis using assms by simp
qed

lemma edgesOf_not_key: "p \<notin> fst ` set g \<Longrightarrow> edgesOf g p = []"
proof -
  assume "p \<notin> fst ` set g"
  then have "map_of g p = None" by (simp add: map_of_eq_None_iff)
  then show ?thesis by (simp add: edgesOf_def)
qed

lemma visit_total:
  "card (fst ` set g - fst st) < n \<Longrightarrow> \<exists>st'. visit n g st p = Some st'"
  "card (fst ` set g - fst st) < n \<or> ds = [] \<Longrightarrow> \<exists>st'. visitDeps n g st ds = Some st'"
proof (induction n g st p and n g st ds rule: visit_visitDeps.induct)
  case (1 g st p)
  then show ?case by simp
next
  case (2 n g st p)
  show ?case
  proof (cases "p \<in> fst st")
    case True
    then show ?thesis by simp
  next
    case False
    have "card (fst ` set g - fst (insert p (fst st), snd st)) < n \<or> edgesOf g p = []"
    proof (cases "p \<in> fst ` set g")
      case True
      from card_keys_insert[OF True False "2.prems"] show ?thesis by simp
    next
      case False
      then show ?thesis by (simp add: edgesOf_not_key)
    qed
    from "2.IH"[OF False this] False show ?thesis by auto
  qed
next
  case (3 n g st)
  then show ?case by simp
next
  case (4 n g st dep deps)
  from "4.prems" have c: "card (fst ` set g - fst st) < n" by simp
  from "4.IH"(1)[OF c] obtain st1 where a: "visit n g st dep = Some st1" by blast
  from visit_frame(1)[OF a] have "fst st \<subseteq> fst st1" by simp
  then have "card (fst ` set g - fst st1) \<le> card (fst ` set g - fst st)"
    by (intro card_mono) auto
  with c have "card (fst ` set g - fst st1) < n \<or> deps = []" by simp
  from "4.IH"(2)[OF a this] a show ?case by simp
qed

lemma visit_ordered:
  "visit n g st p = Some st' \<Longrightarrow> acyclic (edges g) \<Longrightarrow> dep_ordered g (snd st) \<Longrightarrow>
     (\<forall>x \<in> fst st - set (snd st). (x, p) \<in> (edges g)\<^sup>+) \<Longrightarrow>
     dep_ordered g (snd st') \<and> p \<in> set (snd st')"
  "visitDeps n g st ds = Some st' \<Longrightarrow> acyclic (edges g) \<Longrightarrow> dep_ordered g (snd st) \<Longrightarrow>
     (\<forall>x \<in> fst st - set (snd st). \<forall>d \<in> set ds. (x, d) \<in> (edges g)\<^sup>+) \<Longrightarrow>
     dep_ordered g (snd st') \<and> set ds \<subseteq> set (snd st')"
proof (induction n g st p and n g st ds arbitrary: st' and st' rule: visit_visitDeps.induct)
  case (1 g st p)
  then show ?case by simp
next
  case (2 n g st p)
  show ?case
  proof (cases "p \<in> fst st")
    case True
    have "p \<in> set (snd st)"
    proof (rule ccontr)
      assume "p \<notin> set (snd st)"
      with True "2.prems"(4) have "(p, p) \<in> (edges g)\<^sup>+" by simp
      with "2.prems"(2) show False by (simp add: acyclic_def)
    qed
    with True "2.prems" show ?thesis by simp
  next
    case False
    with "2.prems"(1) obtain st1 where
      a: "visitDeps n g (insert p (fst st), snd st) (edgesOf g p) = Some st1" and
      b: "st' = (fst st1, snd st1 @ [p])"
      by (auto split: option.splits)
    have c: "dep_ordered g (snd (insert p (fst st), snd st))"
      using "2.prems"(3) by simp
    have d: "\<forall>x \<in> fst (insert p (fst st), snd st) - set (snd (insert p (fst st), snd st)).
               \<forall>d \<in> set (edgesOf g p). (x, d) \<in> (edges g)\<^sup>+"
    proof (intro ballI)
      fix x d
      assume x: "x \<in> fst (insert p (fst st), snd st) - set (snd (insert p (fst st), snd st))"
        and d: "d \<in> set (edgesOf g p)"
      from d have e: "(p, d) \<in> edges g" by (simp add: edges_def)
      show "(x, d) \<in> (edges g)\<^sup>+"
      proof (cases "x = p")
        case True
        with e show ?thesis by blast
      next
        case False
        with x "2.prems"(4) have "(x, p) \<in> (edges g)\<^sup>+" by simp
        with e show ?thesis by (meson trancl_into_trancl)
      qed
    qed
    from "2.IH"[OF False a "2.prems"(2) c d] b show ?thesis
      by (simp add: dep_ordered_snoc)
  qed
next
  case (3 n g st)
  then show ?case by simp
next
  case (4 n g st dep deps)
  from "4.prems"(1) obtain st1 where
    a: "visit n g st dep = Some st1" and b: "visitDeps n g st1 deps = Some st'"
    by (auto split: option.splits)
  from "4.prems"(4) have "\<forall>x \<in> fst st - set (snd st). (x, dep) \<in> (edges g)\<^sup>+" by simp
  from "4.IH"(1)[OF a "4.prems"(2,3) this]
  have o1: "dep_ordered g (snd st1)" and m1: "dep \<in> set (snd st1)" by auto
  from visit_frame(1)[OF a] have "fst st1 - set (snd st1) = fst st - set (snd st)" by simp
  with "4.prems"(4) have "\<forall>x \<in> fst st1 - set (snd st1). \<forall>d \<in> set deps. (x, d) \<in> (edges g)\<^sup>+"
    by simp
  from "4.IH"(2)[OF a b "4.prems"(2) o1 this]
  have o2: "dep_ordered g (snd st')" and m2: "set deps \<subseteq> set (snd st')" by auto
  from visit_frame(2)[OF b] m1 have "dep \<in> set (snd st')" by auto
  with o2 m2 show ?case by simp
qed

lemma visitAll_visitDeps: "visitAll n g st ks = visitDeps n g st ks"
  by (induction ks arbitrary: st) (auto split: option.splits)

section \<open>The graph built from the blueprints\<close>

lemma set_set_add: "set (set_add x xs) = insert x (set xs)"
  by (auto simp: set_add_def)

lemma map_of_ensureNode:
  "map_of (ensureNode n g) k = (if k = n \<and> map_of g n = None then Some [] else map_of g k)"
  by (simp add: ensureNode_def has_def update_conv')

lemma map_of_addEdge:
  "map_of (addEdge p n g) k = (if k = p then map_option (set_add n) (map_of g p) else map_of g k)"
  by (auto simp: addEdge_def update_conv' split: option.splits)

lemma addDependencies_self:
  "map_of g np = Some s \<Longrightarrow>
   \<exists>s'. map_of (addDependencies C vars pp np ds g) np = Some s' \<and>
        set s' = set s \<union> resolvePath C pp vars ` set ds"
proof (induction ds arbitrary: g s)
  case Nil
  then show ?case by simp
next
  case (Cons d ds)
  let ?nd = "resolvePath C pp vars d"
  have "map_of (addEdge np ?nd (ensureNode ?nd g)) np = Some (set_add ?nd s)"
    using Cons.prems by (auto simp: map_of_addEdge map_of_ensureNode)
  from Cons.IH[OF this] show ?case by (auto simp: Let_def set_set_add)
qed

lemma addDependencies_other:
  "k \<noteq> np \<Longrightarrow>
   map_of (addDependencies C vars pp np ds g) k =
     (if map_of g k = None \<and> k \<in> resolvePath C pp vars ` set ds then Some [] else map_of g k)"
proof (induction ds arbitrary: g)
  case Nil
  then show ?case by simp
next
  case (Cons d ds)
  then show ?case
    by (auto simp: Let_def map_of_addEdge map_of_ensureNode)
qed

lemma addTask_fst:
  "fst (addTask C vars pp t st) = (fst st)(nodeOf C vars pp t \<mapsto> t)"
  by (simp add: addTask_def nodeOf_def Let_def split: prod.splits)

lemma addTask_self:
  "\<exists>s. map_of (snd (addTask C vars pp t st)) (nodeOf C vars pp t) = Some s \<and>
       set s = set (targets C vars pp t)"
proof -
  obtain tm g where st: "st = (tm, g)" by (cases st)
  let ?np = "resolvePath C pp vars (path t)"
  let ?g1 = "AList.update ?np [] g"
  let ?g2 = "case dependencies t of None \<Rightarrow> ?g1 | Some ds \<Rightarrow> addDependencies C vars pp ?np ds ?g1"
  have g1: "map_of ?g1 ?np = Some []" by (simp add: update_conv')
  have "\<exists>s. map_of ?g2 ?np = Some s \<and>
          set s = set (case dependencies t of None \<Rightarrow> [] | Some ds \<Rightarrow> map (resolvePath C pp vars) ds)"
  proof (cases "dependencies t")
    case None
    then show ?thesis using g1 by simp
  next
    case (Some ds)
    from addDependencies_self[OF g1, of C vars pp ds] Some show ?thesis by auto
  qed
  then obtain s where s: "map_of ?g2 ?np = Some s"
    "set s = set (case dependencies t of None \<Rightarrow> [] | Some ds \<Rightarrow> map (resolvePath C pp vars) ds)"
    by blast
  show ?thesis
  proof (cases "implicitParent ?np")
    case None
    with s st show ?thesis
      by (simp add: addTask_def Let_def targets_def dependencyNodes_def nodeOf_def)
  next
    case (Some q)
    with s st show ?thesis
      by (auto simp: addTask_def Let_def targets_def dependencyNodes_def nodeOf_def map_of_addEdge map_of_ensureNode set_set_add)
  qed
qed

lemma addTask_other:
  assumes "k \<noteq> nodeOf C vars pp t"
  shows "map_of (snd (addTask C vars pp t st)) k =
     (if map_of (snd st) k = None \<and> k \<in> set (targets C vars pp t) then Some [] else map_of (snd st) k)"
proof -
  from assms have assms': "k \<noteq> resolvePath C pp vars (path t)" by (simp add: nodeOf_def)
  obtain tm g where st: "st = (tm, g)" by (cases st)
  let ?np = "resolvePath C pp vars (path t)"
  let ?g1 = "AList.update ?np [] g"
  let ?dn = "case dependencies t of None \<Rightarrow> [] | Some ds \<Rightarrow> map (resolvePath C pp vars) ds"
  let ?g2 = "case dependencies t of None \<Rightarrow> ?g1 | Some ds \<Rightarrow> addDependencies C vars pp ?np ds ?g1"
  have g1: "map_of ?g1 k = map_of g k" using assms' by (simp add: update_conv')
  have g2: "map_of ?g2 k = (if map_of g k = None \<and> k \<in> set ?dn then Some [] else map_of g k)"
    using assms' g1 by (cases "dependencies t") (simp_all add: addDependencies_other)
  show ?thesis
  proof (cases "implicitParent ?np")
    case None
    with g2 st show ?thesis
      by (simp add: addTask_def Let_def targets_def dependencyNodes_def nodeOf_def)
  next
    case (Some q)
    have g3: "map_of (addEdge ?np q (ensureNode q ?g2)) k =
                (if k = q \<and> map_of ?g2 q = None then Some [] else map_of ?g2 k)"
      using assms' by (simp add: map_of_addEdge map_of_ensureNode)
    have tg: "set (targets C vars pp t) = set ?dn \<union> {q}"
      using Some by (simp add: targets_def dependencyNodes_def nodeOf_def)
    have sn: "snd (addTask C vars pp t (tm, g)) = addEdge ?np q (ensureNode q ?g2)"
      using Some by (simp add: addTask_def Let_def)
    have "map_of (addEdge ?np q (ensureNode q ?g2)) k =
            (if map_of g k = None \<and> k \<in> set ?dn \<union> {q} then Some [] else map_of g k)"
      unfolding g3 using g2 by (cases "k = q"; cases "map_of g k"; cases "k \<in> set ?dn") simp_all
    then show ?thesis unfolding sn tg st by simp
  qed
qed

lemma distinct_ensureNode: "distinct (map fst g) \<Longrightarrow> distinct (map fst (ensureNode n g))"
  by (simp add: ensureNode_def distinct_update)

lemma distinct_addEdge: "distinct (map fst g) \<Longrightarrow> distinct (map fst (addEdge p n g))"
  by (simp add: addEdge_def distinct_update split: option.splits)

lemma distinct_addDependencies:
  "distinct (map fst g) \<Longrightarrow> distinct (map fst (addDependencies C vars pp np ds g))"
  by (induction ds arbitrary: g) (simp_all add: Let_def distinct_addEdge distinct_ensureNode)

lemma distinct_addTask:
  "distinct (map fst (snd st)) \<Longrightarrow> distinct (map fst (snd (addTask C vars pp t st)))"
  by (cases st)
     (simp add: addTask_def Let_def distinct_addEdge distinct_ensureNode distinct_addDependencies
        distinct_update split: option.splits)

lemma graph_inv_init: "graph_inv C vars pp [] (Map.empty, [])"
  by (simp add: graph_inv_def)

lemma graph_inv_step:
  assumes "graph_inv C vars pp dn st"
  shows "graph_inv C vars pp (dn @ [t]) (addTask C vars pp t st)"
proof -
  let ?np = "nodeOf C vars pp t"
  let ?st' = "addTask C vars pp t st"
  from assms have
    a: "fst st = map_of (rev (map (\<lambda>t. (nodeOf C vars pp t, t)) dn))" and
    b: "\<And>q u. fst st q = Some u \<Longrightarrow> \<exists>s. map_of (snd st) q = Some s \<and> set s = set (targets C vars pp u)" and
    c: "\<And>q. fst st q = None \<Longrightarrow>
        map_of (snd st) q = (if \<exists>t \<in> set dn. q \<in> set (targets C vars pp t) then Some [] else None)" and
    d: "distinct (map fst (snd st))"
    by (auto simp: graph_inv_def)
  have f: "fst ?st' = (fst st)(?np \<mapsto> t)" by (rule addTask_fst)
  have a': "fst ?st' = map_of (rev (map (\<lambda>t. (nodeOf C vars pp t, t)) (dn @ [t])))"
    by (simp add: f a)
  have b': "\<exists>s. map_of (snd ?st') q = Some s \<and> set s = set (targets C vars pp u)"
    if "fst ?st' q = Some u" for q u
  proof (cases "q = ?np")
    case True
    with that f have "u = t" by simp
    with True addTask_self[of C vars pp t st] show ?thesis by simp
  next
    case False
    with that f have "fst st q = Some u" by simp
    from b[OF this] obtain s where s: "map_of (snd st) q = Some s" "set s = set (targets C vars pp u)"
      by blast
    with addTask_other[OF False, of st] show ?thesis by simp
  qed
  have c': "map_of (snd ?st') q =
      (if \<exists>t \<in> set (dn @ [t]). q \<in> set (targets C vars pp t) then Some [] else None)"
    if "fst ?st' q = None" for q
  proof -
    from that f have ne: "q \<noteq> ?np" and n: "fst st q = None" by (auto split: if_splits)
    from c[OF n] addTask_other[OF ne, of st] show ?thesis by auto
  qed
  from a' b' c' distinct_addTask[OF d] show ?thesis
    unfolding graph_inv_def by blast
qed

lemma graph_inv_buildGraph:
  "graph_inv C vars pp dn st \<Longrightarrow> graph_inv C vars pp (dn @ ts) (buildGraph C vars pp ts st)"
proof (induction ts arbitrary: dn st)
  case Nil
  then show ?case by simp
next
  case (Cons t ts)
  from Cons.IH[OF graph_inv_step[OF Cons.prems, of t]] show ?case by simp
qed

lemma graph_inv_final: "graph_inv C vars pp ts (buildGraph C vars pp ts (Map.empty, []))"
  using graph_inv_buildGraph[OF graph_inv_init, of C vars pp ts] by simp

lemma graph_invD1:
  "graph_inv C vars pp dn st \<Longrightarrow> fst st = map_of (rev (map (\<lambda>t. (nodeOf C vars pp t, t)) dn))"
  unfolding graph_inv_def by (elim conjE)

lemma graph_invD2:
  assumes "graph_inv C vars pp dn st" and "fst st q = Some t"
  shows "\<exists>s. map_of (snd st) q = Some s \<and> set s = set (targets C vars pp t)"
proof -
  from assms(1) have "\<forall>q t. fst st q = Some t \<longrightarrow>
      (\<exists>s. map_of (snd st) q = Some s \<and> set s = set (targets C vars pp t))"
    unfolding graph_inv_def by (elim conjE)
  with assms(2) show ?thesis by (elim allE[of _ q] allE[of _ t] impE)
qed

lemma graph_invD3:
  assumes "graph_inv C vars pp dn st" and "fst st q = None"
  shows "map_of (snd st) q = (if \<exists>t \<in> set dn. q \<in> set (targets C vars pp t) then Some [] else None)"
proof -
  from assms(1) have "\<forall>q. fst st q = None \<longrightarrow>
        map_of (snd st) q = (if \<exists>t \<in> set dn. q \<in> set (targets C vars pp t) then Some [] else None)"
    unfolding graph_inv_def by (elim conjE)
  with assms(2) show ?thesis by (elim allE[of _ q] impE)
qed

lemma taskMapOf_eq:
  "taskMapOf C tasks vars pp = map_of (rev (map (\<lambda>t. (nodeOf C vars pp t, t)) tasks))"
  using graph_invD1[OF graph_inv_final, of C vars pp tasks] by (simp add: taskMapOf_def)

lemma taskMapOf_SomeD:
  "taskMapOf C tasks vars pp q = Some t \<Longrightarrow> t \<in> set tasks \<and> nodeOf C vars pp t = q"
  by (auto simp: taskMapOf_eq dest!: map_of_SomeD)

lemma taskMapOf_dom: "dom (taskMapOf C tasks vars pp) = nodeOf C vars pp ` set tasks"
  by (simp add: taskMapOf_eq dom_map_of_conv_image_fst image_image)

lemma taskMapOf_distinct:
  "distinct (map (nodeOf C vars pp) tasks) \<Longrightarrow> t \<in> set tasks \<Longrightarrow>
   taskMapOf C tasks vars pp (nodeOf C vars pp t) = Some t"
  by (simp add: taskMapOf_eq comp_def rev_map[symmetric])

lemma graph_task_node:
  assumes "taskMapOf C tasks vars pp q = Some t"
  shows "\<exists>s. map_of (dependencyGraph C tasks vars pp) q = Some s \<and> set s = set (targets C vars pp t)"
  using graph_invD2[OF graph_inv_final, of C vars pp tasks q t] assms
  by (simp add: taskMapOf_def dependencyGraph_def)

lemma graph_edges_task:
  assumes "taskMapOf C tasks vars pp q = Some t"
  shows "set (edgesOf (dependencyGraph C tasks vars pp) q) = set (targets C vars pp t)"
proof -
  from graph_task_node[OF assms] obtain s where
    "map_of (dependencyGraph C tasks vars pp) q = Some s" "set s = set (targets C vars pp t)"
    by blast
  then show ?thesis by (simp add: edgesOf_def)
qed

lemma graph_bare:
  "taskMapOf C tasks vars pp q = None \<Longrightarrow>
   map_of (dependencyGraph C tasks vars pp) q =
     (if \<exists>t \<in> set tasks. q \<in> set (targets C vars pp t) then Some [] else None)"
  using graph_invD3[OF graph_inv_final, of C vars pp tasks q]
  by (simp add: taskMapOf_def dependencyGraph_def)

lemma graph_keys_tasks:
  "t \<in> set tasks \<Longrightarrow> nodeOf C vars pp t \<in> fst ` set (dependencyGraph C tasks vars pp)"
proof -
  assume "t \<in> set tasks"
  then have "nodeOf C vars pp t \<in> dom (taskMapOf C tasks vars pp)" by (simp add: taskMapOf_dom)
  then obtain u where u: "taskMapOf C tasks vars pp (nodeOf C vars pp t) = Some u" by blast
  from graph_task_node[OF u]
  have "map_of (dependencyGraph C tasks vars pp) (nodeOf C vars pp t) \<noteq> None"
    by auto
  then show ?thesis by (simp add: map_of_eq_None_iff)
qed

lemma graph_edges_subset:
  "edges (dependencyGraph C tasks vars pp) \<subseteq> blueprintEdges C vars pp tasks"
proof
  fix e assume e: "e \<in> edges (dependencyGraph C tasks vars pp)"
  obtain p q where pq: "e = (p, q)" by (cases e)
  with e have q: "q \<in> set (edgesOf (dependencyGraph C tasks vars pp) p)" by (simp add: edges_def)
  show "e \<in> blueprintEdges C vars pp tasks"
  proof (cases "taskMapOf C tasks vars pp p")
    case None
    from graph_bare[OF None] q show ?thesis by (auto simp: edgesOf_def split: if_splits)
  next
    case (Some t)
    from graph_edges_task[OF Some] taskMapOf_SomeD[OF Some] q pq show ?thesis
      by (auto simp: blueprintEdges_def)
  qed
qed

lemma sortedPaths_facts:
  assumes "sortedPaths n C tasks vars pp = Some S"
  shows "distinct S" and "fst ` set (dependencyGraph C tasks vars pp) \<subseteq> set S"
proof -
  let ?g = "dependencyGraph C tasks vars pp"
  from assms obtain V where v: "visitDeps n ?g ({}, []) (map fst ?g) = Some (V, S)"
    by (auto simp: sortedPaths_def Let_def visitAll_visitDeps)
  from visit_distinct(2)[OF v] show "distinct S" by simp
  from visit_frame(2)[OF v] show "fst ` set ?g \<subseteq> set S" by auto
qed

lemma sortedPaths_ordered:
  assumes "sortedPaths n C tasks vars pp = Some S"
    and "acyclic (edges (dependencyGraph C tasks vars pp))"
  shows "dep_ordered (dependencyGraph C tasks vars pp) S"
proof -
  let ?g = "dependencyGraph C tasks vars pp"
  from assms obtain V where v: "visitDeps n ?g ({}, []) (map fst ?g) = Some (V, S)"
    by (auto simp: sortedPaths_def Let_def visitAll_visitDeps)
  from visit_ordered(2)[OF v assms(2)] show ?thesis by (simp add: dep_ordered_Nil)
qed

lemma sortedPaths_total:
  assumes "length (dependencyGraph C tasks vars pp) < n"
  shows "\<exists>S. sortedPaths n C tasks vars pp = Some S"
proof -
  let ?g = "dependencyGraph C tasks vars pp"
  have "card (fst ` set ?g) \<le> length ?g"
  proof -
    have "card (fst ` set ?g) \<le> card (set ?g)" by (rule card_image_le) simp
    also have "\<dots> \<le> length ?g" by (rule card_length)
    finally show ?thesis .
  qed
  with assms have "card (fst ` set ?g - fst ({}::string set, []::string list)) < n" by simp
  then have "\<exists>st'. visitDeps n ?g ({}, []) (map fst ?g) = Some st'"
    by (intro visit_total(2)) simp
  then show ?thesis by (auto simp: sortedPaths_def Let_def visitAll_visitDeps)
qed

section \<open>The sorted sequence\<close>

lemma map_filter_split:
  "List.map_filter f xs = pre @ y # post \<Longrightarrow>
   \<exists>xs1 x xs2. xs = xs1 @ x # xs2 \<and> f x = Some y \<and> List.map_filter f xs1 = pre"
proof (induction xs arbitrary: pre)
  case Nil
  then show ?case by simp
next
  case (Cons a xs)
  show ?case
  proof (cases "f a")
    case None
    with Cons.prems have "List.map_filter f xs = pre @ y # post" by simp
    from Cons.IH[OF this] obtain xs1 x xs2 where
      "xs = xs1 @ x # xs2" "f x = Some y" "List.map_filter f xs1 = pre" by blast
    with None have "a # xs = (a # xs1) @ x # xs2 \<and> f x = Some y \<and> List.map_filter f (a # xs1) = pre"
      by simp
    then show ?thesis by blast
  next
    case (Some b)
    show ?thesis
    proof (cases pre)
      case Nil
      with Some Cons.prems have "a # xs = [] @ a # xs \<and> f a = Some y \<and> List.map_filter f [] = pre"
        by simp
      then show ?thesis by blast
    next
      case (Cons c pre')
      with Some Cons.prems have c: "c = b" and "List.map_filter f xs = pre' @ y # post" by simp_all
      from Cons.IH[OF this(2)] obtain xs1 x xs2 where
        "xs = xs1 @ x # xs2" "f x = Some y" "List.map_filter f xs1 = pre'" by blast
      with Some Cons c
      have "a # xs = (a # xs1) @ x # xs2 \<and> f x = Some y \<and> List.map_filter f (a # xs1) = pre"
        by simp
      then show ?thesis by blast
    qed
  qed
qed

lemma set_map_filter: "set (List.map_filter f xs) = {y. \<exists>x \<in> set xs. f x = Some y}"
  by (induction xs) (auto split: option.splits)

lemma dep_ordered_split:
  assumes "dep_ordered g S" and "S = S1 @ q # S2"
  shows "set (edgesOf g q) \<subseteq> set S1"
proof -
  have "length S1 < length S" using assms(2) by simp
  with assms(1) have "set (edgesOf g (S ! length S1)) \<subseteq> set (take (length S1) S)"
    unfolding dep_ordered_def by blast
  with assms(2) show ?thesis by simp
qed

lemma sortTasks_SomeD:
  assumes "sortTasks n C tasks vars pp = Some out"
  shows "\<exists>S. sortedPaths n C tasks vars pp = Some S \<and> out = List.map_filter (taskMapOf C tasks vars pp) S"
  using assms by (auto simp: sortTasks_def)



lemma map_filter_nodes:
  "map (nodeOf C vars pp) (List.map_filter (taskMapOf C tasks vars pp) S) =
   filter (\<lambda>q. taskMapOf C tasks vars pp q \<noteq> None) S"
proof (induction S)
  case Nil
  then show ?case by simp
next
  case (Cons q S)
  show ?case
  proof (cases "taskMapOf C tasks vars pp q")
    case None
    with Cons show ?thesis by simp
  next
    case (Some u)
    from taskMapOf_SomeD[OF Some] have "nodeOf C vars pp u = q" by simp
    with Some Cons show ?thesis by simp
  qed
qed

lemma sorted_nodes:
  assumes "sortedPaths n C tasks vars pp = Some S"
  shows "distinct (filter (\<lambda>q. taskMapOf C tasks vars pp q \<noteq> None) S)"
    and "set (filter (\<lambda>q. taskMapOf C tasks vars pp q \<noteq> None) S) = nodeOf C vars pp ` set tasks"
proof -
  from sortedPaths_facts[OF assms] have d: "distinct S"
    and k: "fst ` set (dependencyGraph C tasks vars pp) \<subseteq> set S" by simp_all
  from d show "distinct (filter (\<lambda>q. taskMapOf C tasks vars pp q \<noteq> None) S)" by simp
  have sub: "nodeOf C vars pp ` set tasks \<subseteq> set S"
  proof
    fix q assume "q \<in> nodeOf C vars pp ` set tasks"
    then obtain t where "t \<in> set tasks" "q = nodeOf C vars pp t" by blast
    with graph_keys_tasks[of t tasks C vars pp] k show "q \<in> set S" by blast
  qed
  have dm: "{q. taskMapOf C tasks vars pp q \<noteq> None} = nodeOf C vars pp ` set tasks"
    using taskMapOf_dom[of C tasks vars pp] by (simp add: dom_def)
  have "set (filter (\<lambda>q. taskMapOf C tasks vars pp q \<noteq> None) S) =
          set S \<inter> {q. taskMapOf C tasks vars pp q \<noteq> None}"
    by (simp only: set_filter) blast
  also have "\<dots> = nodeOf C vars pp ` set tasks" unfolding dm using sub by blast
  finally show "set (filter (\<lambda>q. taskMapOf C tasks vars pp q \<noteq> None) S) = nodeOf C vars pp ` set tasks" .
qed


lemma nestedExample_acyclic: "acyclic (blueprintEdges plainCollaborators Map.empty None nestedExample)"
proof (rule acyclicI_order[where f = length])
  fix a b
  assume "(a, b) \<in> blueprintEdges plainCollaborators Map.empty None nestedExample"
  then show "length b < length a"
    by (auto simp: blueprintEdges_def nestedExample_def targets_def dependencyNodes_def nodeOf_def
        blueprint_def resolvePath_def plainCollaborators_def implicitParent_def Let_def)
qed

lemma sortTasks_permutation:
  assumes "sortTasks n C tasks vars pp = Some out"
    and d: "distinct (map (nodeOf C vars pp) tasks)"
  shows "mset out = mset tasks"
proof -
  let ?tm = "taskMapOf C tasks vars pp"
  let ?nd = "nodeOf C vars pp"
  let ?F = "\<lambda>S. filter (\<lambda>q. ?tm q \<noteq> None) S"
  from sortTasks_SomeD[OF assms(1)] obtain S where
    S: "sortedPaths n C tasks vars pp = Some S" and out: "out = List.map_filter ?tm S" by blast
  note F = sorted_nodes[OF S]
  have "set (?F S) = set (map ?nd tasks)" using F(2) by simp
  with F(1) d have "mset (?F S) = mset (map ?nd tasks)"
    by (simp only: set_eq_iff_mset_eq_distinct)
  moreover have "out = map (the \<circ> ?tm) (?F S)" by (simp add: out List.map_filter_def)
  ultimately have "mset out = image_mset (the \<circ> ?tm) (image_mset ?nd (mset tasks))"
    by simp
  also have "\<dots> = image_mset (\<lambda>t. t) (mset tasks)"
    unfolding multiset.map_comp
    by (rule image_mset_cong) (simp add: taskMapOf_distinct[OF d])
  finally show ?thesis by simp
qed

lemma sortTasks_single:
  assumes "sortTasks n C [t] vars pp = Some out"
  shows "out = [t]"
proof -
  from sortTasks_permutation[OF assms] have "mset out = {#t#}" by simp
  then show ?thesis by simp
qed

section \<open>Instantiation: what a call preserves\<close>

lemma createTask_processing:
  "createTask C m i = (r, m') \<Longrightarrow> processingTemplates m' = processingTemplates m"
  by (auto simp: createTask_def split: if_splits)

lemma ensureParent_processing:
  "ensureParent C m np = (r, m') \<Longrightarrow> processingTemplates m' = processingTemplates m"
  by (auto simp: ensureParent_def createTask_def Let_def split: option.splits if_splits)

lemma processing_preserved:
  "instantiateTemplate n C m opts = Some (r, m') \<Longrightarrow> processingTemplates m' = processingTemplates m"
  "instantiateBody n C m opts = Some (r, m') \<Longrightarrow> processingTemplates m' = processingTemplates m"
  "processTasks n C m ts vars pp = Some (r, m') \<Longrightarrow> processingTemplates m' = processingTemplates m"
  "processTemplateTask n C m t vars pp = Some (r, m') \<Longrightarrow> processingTemplates m' = processingTemplates m"
proof (induction n C m opts and n C m opts and n C m ts vars pp and n C m t vars pp
    arbitrary: r m' and r m' and r m' and r m'
    rule: instantiateTemplate_instantiateBody_processTasks_processTemplateTask.induct)
  case (1 C m opts)
  then show ?case by simp
next
  case (2 n C m opts)
  show ?case
  proof (cases "templateId opts \<in> processingTemplates m")
    case True
    with "2.prems" show ?thesis by simp
  next
    case False
    with "2.prems" obtain m2 where
      b: "instantiateBody n C (m\<lparr>processingTemplates := insert (templateId opts) (processingTemplates m)\<rparr>) opts
            = Some (r, m2)" and
      m': "m' = m2\<lparr>processingTemplates := processingTemplates m2 - {templateId opts}\<rparr>"
      by (auto split: option.splits)
    from "2.IH"[OF False b] False m' show ?thesis by auto
  qed
next
  case (3 n C m opts)
  let ?m1 = "m\<lparr>calls := calls m @ [GetTemplate (templateId opts)]\<rparr>"
  show ?case
  proof (cases "getTemplate C (templateId opts)")
    case None
    with "3.prems" show ?thesis by (auto simp: Let_def)
  next
    case (Some tmpl)
    let ?vars = "applyDefaults (t_variables tmpl) (opt_variables opts)"
    let ?missing = "validateRequiredVariables (t_variables tmpl) ?vars"
    show ?thesis
    proof (cases "?missing \<noteq> []")
      case True
      with Some "3.prems" show ?thesis by (auto simp: Let_def)
    next
      case False
      with Some "3.prems" obtain sortedTasks where
        s: "sortTasks n C (t_tasks tmpl) ?vars (parentPath opts) = Some sortedTasks" and
        p: "processTasks n C ?m1 sortedTasks ?vars (parentPath opts) = Some (r, m')"
        by (auto simp: Let_def split: option.splits)
      from "3.IH"[OF refl Some refl refl False s p] show ?thesis by simp
    qed
  qed
next
  case (4 n C m vars pp)
  then show ?case by simp
next
  case (5 n C m task rest vars pp)
  from "5.prems" obtain r1 m1 where
    a: "processTemplateTask n C m task vars pp = Some (r1, m1)"
    by (auto split: option.splits)
  from "5.IH"(1)[OF a] have p1: "processingTemplates m1 = processingTemplates m" .
  show ?case
  proof (cases r1)
    case (Inl e)
    with a "5.prems" p1 show ?thesis by simp
  next
    case (Inr u)
    with a "5.prems" have "processTasks n C m1 rest vars pp = Some (r, m')" by simp
    from "5.IH"(2)[OF a refl Inr this] p1 show ?thesis by simp
  qed
next
  case (6 n C m task vars pp)
  let ?np = "resolvePath C pp vars (path task)"
  obtain r1 m1 where e: "ensureParent C m ?np = (r1, m1)" by (cases "ensureParent C m ?np")
  from ensureParent_processing[OF e] have p1: "processingTemplates m1 = processingTemplates m" .
  show ?case
  proof (cases r1)
    case (Inl err)
    with e "6.prems" p1 show ?thesis by (simp add: Let_def)
  next
    case (Inr u)
    show ?thesis
    proof (cases "templateRefOf C task vars")
      case None
      with Inr e "6.prems" have
        "createTask C m1 (taskInput C task vars pp (transformedMetadata C task vars)) = (r, m')"
        by (simp add: Let_def)
      from createTask_processing[OF this] p1 show ?thesis by simp
    next
      case (Some ref)
      let ?inp = "taskInput C task vars pp (map_option (removeTemplateRef C) (transformedMetadata C task vars))"
      obtain r2 m2 where c: "createTask C m1 ?inp = (r2, m2)" by (cases "createTask C m1 ?inp")
      from createTask_processing[OF c] p1 have p2: "processingTemplates m2 = processingTemplates m" by simp
      show ?thesis
      proof (cases r2)
        case (Inl err)
        with Some Inr e c "6.prems" p2 show ?thesis by (simp add: Let_def)
      next
        case (Inr u2)
        with Some \<open>r1 = Inr u\<close> e c "6.prems" have
          i: "instantiateTemplate n C m2
                \<lparr>templateId = template ref, opt_variables = ref_variables ref, parentPath = Some ?np\<rparr>
              = Some (r, m')"
          by (simp add: Let_def)
        from "6.IH"[OF refl refl refl e[symmetric] \<open>r1 = Inr u\<close> Some c[symmetric] Inr i] p2
        show ?thesis by simp
      qed
    qed
  qed
qed

lemma run_rel:
  assumes R_refl: "\<And>m. R m m"
    and R_trans: "\<And>a b c. R a b \<Longrightarrow> R b c \<Longrightarrow> R a c"
    and R_proc: "\<And>m P. R m (m\<lparr>processingTemplates := P\<rparr>)"
    and R_calls: "\<And>m c. R m (m\<lparr>calls := c\<rparr>)"
    and R_create: "\<And>C m i r m'. createTask C m i = (r, m') \<Longrightarrow> R m m'"
    and R_parent: "\<And>C m np r m'. ensureParent C m np = (r, m') \<Longrightarrow> R m m'"
  shows "instantiateTemplate n C m opts = Some (r, m') \<Longrightarrow> R m m'"
    and "instantiateBody n C m opts = Some (r, m') \<Longrightarrow> R m m'"
    and "processTasks n C m ts vars pp = Some (r, m') \<Longrightarrow> R m m'"
    and "processTemplateTask n C m t vars pp = Some (r, m') \<Longrightarrow> R m m'"
proof (induction n C m opts and n C m opts and n C m ts vars pp and n C m t vars pp
    arbitrary: r m' and r m' and r m' and r m'
    rule: instantiateTemplate_instantiateBody_processTasks_processTemplateTask.induct)
  case (1 C m opts)
  then show ?case by simp
next
  case (2 n C m opts)
  show ?case
  proof (cases "templateId opts \<in> processingTemplates m")
    case True
    with "2.prems" show ?thesis by (simp add: R_refl)
  next
    case False
    let ?m0 = "m\<lparr>processingTemplates := insert (templateId opts) (processingTemplates m)\<rparr>"
    from False "2.prems" obtain m2 where
      b: "instantiateBody n C ?m0 opts = Some (r, m2)" and
      m': "m' = m2\<lparr>processingTemplates := processingTemplates m2 - {templateId opts}\<rparr>"
      by (auto split: option.splits)
    from "2.IH"[OF False b] have "R ?m0 m2" .
    with R_proc[of m] have "R m m2" by (meson R_trans)
    then show ?thesis unfolding m' using R_proc[of m2] by (meson R_trans)
  qed
next
  case (3 n C m opts)
  let ?m1 = "m\<lparr>calls := calls m @ [GetTemplate (templateId opts)]\<rparr>"
  have m1: "R m ?m1" by (rule R_calls)
  show ?case
  proof (cases "getTemplate C (templateId opts)")
    case None
    with "3.prems" m1 show ?thesis by (auto simp: Let_def)
  next
    case (Some tmpl)
    let ?vars = "applyDefaults (t_variables tmpl) (opt_variables opts)"
    let ?missing = "validateRequiredVariables (t_variables tmpl) ?vars"
    show ?thesis
    proof (cases "?missing \<noteq> []")
      case True
      with Some "3.prems" m1 show ?thesis by (auto simp: Let_def)
    next
      case False
      with Some "3.prems" obtain sortedTasks where
        s: "sortTasks n C (t_tasks tmpl) ?vars (parentPath opts) = Some sortedTasks" and
        p: "processTasks n C ?m1 sortedTasks ?vars (parentPath opts) = Some (r, m')"
        by (auto simp: Let_def split: option.splits)
      from "3.IH"[OF refl Some refl refl False s p] have "R ?m1 m'" .
      with m1 show ?thesis by (meson R_trans)
    qed
  qed
next
  case (4 n C m vars pp)
  then show ?case by (simp add: R_refl)
next
  case (5 n C m task rest vars pp)
  from "5.prems" obtain r1 m1 where
    a: "processTemplateTask n C m task vars pp = Some (r1, m1)"
    by (auto split: option.splits)
  from "5.IH"(1)[OF a] have p1: "R m m1" .
  show ?case
  proof (cases r1)
    case (Inl e)
    with a "5.prems" p1 show ?thesis by simp
  next
    case (Inr u)
    with a "5.prems" have "processTasks n C m1 rest vars pp = Some (r, m')" by simp
    from "5.IH"(2)[OF a refl Inr this] have "R m1 m'" .
    with p1 show ?thesis by (meson R_trans)
  qed
next
  case (6 n C m task vars pp)
  let ?np = "resolvePath C pp vars (path task)"
  obtain r1 m1 where e: "ensureParent C m ?np = (r1, m1)" by (cases "ensureParent C m ?np")
  from R_parent[OF e] have p1: "R m m1" .
  show ?case
  proof (cases r1)
    case (Inl err)
    with e "6.prems" p1 show ?thesis by (simp add: Let_def)
  next
    case (Inr u)
    show ?thesis
    proof (cases "templateRefOf C task vars")
      case None
      with Inr e "6.prems" have
        "createTask C m1 (taskInput C task vars pp (transformedMetadata C task vars)) = (r, m')"
        by (simp add: Let_def)
      from R_create[OF this] p1 show ?thesis by (meson R_trans)
    next
      case (Some ref)
      let ?inp = "taskInput C task vars pp (map_option (removeTemplateRef C) (transformedMetadata C task vars))"
      obtain r2 m2 where c: "createTask C m1 ?inp = (r2, m2)" by (cases "createTask C m1 ?inp")
      from R_create[OF c] p1 have p2: "R m m2" by (meson R_trans)
      show ?thesis
      proof (cases r2)
        case (Inl err)
        with Some Inr e c "6.prems" p2 show ?thesis by (simp add: Let_def)
      next
        case (Inr u2)
        with Some \<open>r1 = Inr u\<close> e c "6.prems" have
          i: "instantiateTemplate n C m2
                \<lparr>templateId = template ref, opt_variables = ref_variables ref, parentPath = Some ?np\<rparr>
              = Some (r, m')"
          by (simp add: Let_def)
        from "6.IH"[OF refl refl refl e[symmetric] \<open>r1 = Inr u\<close> Some c[symmetric] Inr i]
        have "R m2 m'" .
        with p2 show ?thesis by (meson R_trans)
      qed
    qed
  qed
qed

lemma grows_refl: "grows m m"
  by (simp add: grows_def)

lemma grows_trans: "grows a b \<Longrightarrow> grows b c \<Longrightarrow> grows a c"
  by (auto simp: grows_def)

lemma createTask_cases:
  assumes "createTask C m i = (r, m')"
  shows "(r = Inl (TaskCreationFailed (c_path i)) \<and> createRejected C (stored m) i \<and>
          m' = m\<lparr>calls := calls m @ [CreateTask i]\<rparr>) \<or>
         (r = Inr () \<and> \<not> createRejected C (stored m) i \<and>
          m' = m\<lparr>stored := stored m @ [i], calls := calls m @ [CreateTask i]\<rparr>)"
  using assms by (auto simp: createTask_def split: if_splits)

lemma createTask_grows: "createTask C m i = (r, m') \<Longrightarrow> grows m m'"
  by (drule createTask_cases) (auto simp: grows_def)

lemma getTask_None: "getTask m q = None \<longleftrightarrow> q \<notin> c_path ` set (stored m)"
  by (auto simp: getTask_def find_None_iff)

lemma ensureParent_cases:
  assumes "ensureParent C m np = (r, m')"
  shows "(r = Inr () \<and> stored m' = stored m \<and> autoGenerated m' = autoGenerated m) \<or>
         (\<exists>q e. implicitParent np = Some q \<and> q \<noteq> [] \<and> q \<notin> c_path ` set (stored m) \<and>
                r = Inl e \<and> stored m' = stored m \<and> autoGenerated m' = autoGenerated m) \<or>
         (\<exists>q. implicitParent np = Some q \<and> q \<noteq> [] \<and> q \<notin> c_path ` set (stored m) \<and>
              r = Inr () \<and> \<not> createRejected C (stored m) (parentInput q np) \<and>
              stored m' = stored m @ [parentInput q np] \<and>
              autoGenerated m' = autoGenerated m @ [q])"
proof (cases "implicitParent np")
  case None
  with assms show ?thesis by (simp add: ensureParent_def)
next
  case (Some q)
  show ?thesis
  proof (cases "q = []")
    case True
    with Some assms show ?thesis by (simp add: ensureParent_def)
  next
    case False
    let ?m1 = "m\<lparr>calls := calls m @ [GetTask q]\<rparr>"
    show ?thesis
    proof (cases "getTask ?m1 q")
      case (Some parentTask)
      with \<open>implicitParent np = Some q\<close> False assms show ?thesis
        by (auto simp: ensureParent_def Let_def)
    next
      case None
      then have q: "q \<notin> c_path ` set (stored m)" by (simp add: getTask_None)
      obtain r2 m2 where c: "createTask C ?m1 (parentInput q np) = (r2, m2)"
        by (cases "createTask C ?m1 (parentInput q np)")
      from createTask_cases[OF c] None \<open>implicitParent np = Some q\<close> False assms c q
      show ?thesis
        by (auto simp: ensureParent_def Let_def)
    qed
  qed
qed

lemma ensureParent_grows: "ensureParent C m np = (r, m') \<Longrightarrow> grows m m'"
  by (drule ensureParent_cases) (auto simp: grows_def)

lemma c_path_parentInput: "c_path (parentInput q np) = q"
  by (simp add: parentInput_def Let_def)

lemma ensureParent_recorded:
  assumes "ensureParent C m np = (r, m')" and "parents_recorded m"
  shows "parents_recorded m'"
  using ensureParent_cases[OF assms(1)] assms(2)
  by (auto simp: parents_recorded_def c_path_parentInput)

lemma createTask_recorded:
  assumes "createTask C m i = (r, m')" and "parents_recorded m"
  shows "parents_recorded m'"
  using createTask_cases[OF assms(1)] assms(2)
  by (auto simp: parents_recorded_def)

lemma run_grows:
  "instantiateTemplate n C m opts = Some (r, m') \<Longrightarrow> grows m m'"
  "processTasks n C m ts vars pp = Some (r, m') \<Longrightarrow> grows m m'"
proof -
  have a: "\<And>m P. grows m (m\<lparr>processingTemplates := P\<rparr>)" by (simp add: grows_def)
  have b: "\<And>m c. grows m (m\<lparr>calls := c\<rparr>)" by (simp add: grows_def)
  show "instantiateTemplate n C m opts = Some (r, m') \<Longrightarrow> grows m m'"
    by (rule run_rel(1)[where R = grows, OF grows_refl grows_trans a b createTask_grows ensureParent_grows])
  show "processTasks n C m ts vars pp = Some (r, m') \<Longrightarrow> grows m m'"
    by (rule run_rel(3)[where R = grows, OF grows_refl grows_trans a b createTask_grows ensureParent_grows])
qed

lemma run_recorded:
  assumes "instantiateTemplate n C m opts = Some (r, m')" and "parents_recorded m"
  shows "parents_recorded m'"
proof -
  let ?R = "\<lambda>m m'. parents_recorded m \<longrightarrow> parents_recorded m'"
  have "?R m m'"
  proof (rule run_rel(1)[where R = ?R, OF _ _ _ _ _ _ assms(1)])
    show "\<And>m P. ?R m (m\<lparr>processingTemplates := P\<rparr>)" by (simp add: parents_recorded_def)
    show "\<And>m c. ?R m (m\<lparr>calls := c\<rparr>)" by (simp add: parents_recorded_def)
    show "\<And>C m i r m'. createTask C m i = (r, m') \<Longrightarrow> ?R m m'"
      using createTask_recorded by blast
    show "\<And>C m np r m'. ensureParent C m np = (r, m') \<Longrightarrow> ?R m m'"
      using ensureParent_recorded by blast
  qed simp_all
  with assms(2) show ?thesis by simp
qed

lemma processTemplateTask_cases:
  assumes "processTemplateTask n C m task vars pp = Some (r, m')"
    and "ensureParent C m (resolvePath C pp vars (path task)) = (r1, m1)"
  shows "(\<forall>e. r1 = Inl e \<longrightarrow> r = Inl e \<and> m' = m1) \<and>
         (\<forall>u. r1 = Inr u \<and> templateRefOf C task vars = None \<longrightarrow>
            createTask C m1 (taskInput C task vars pp (transformedMetadata C task vars)) = (r, m')) \<and>
         (\<forall>u ref r2 m2. r1 = Inr u \<and> templateRefOf C task vars = Some ref \<and>
            createTask C m1
              (taskInput C task vars pp (map_option (removeTemplateRef C) (transformedMetadata C task vars)))
              = (r2, m2) \<longrightarrow>
            (\<forall>e. r2 = Inl e \<longrightarrow> r = Inl e \<and> m' = m2) \<and>
            (\<forall>u2. r2 = Inr u2 \<longrightarrow>
               instantiateTemplate n C m2
                 \<lparr>templateId = template ref, opt_variables = ref_variables ref,
                  parentPath = Some (resolvePath C pp vars (path task))\<rparr> = Some (r, m')))"
  using assms by (auto simp: Let_def split: sum.splits option.splits prod.splits)

lemma ensureParent_missing:
  assumes "implicitParent np = Some q" and "q \<noteq> []" and "q \<notin> c_path ` set (stored m)"
  shows "ensureParent C m np =
     (if createRejected C (stored m) (parentInput q np)
      then (Inl (TaskCreationFailed q), m\<lparr>calls := calls m @ [GetTask q, CreateTask (parentInput q np)]\<rparr>)
      else (Inr (), m\<lparr>stored := stored m @ [parentInput q np],
                      calls := calls m @ [GetTask q, CreateTask (parentInput q np)],
                      autoGenerated := autoGenerated m @ [q]\<rparr>))"
proof -
  have "getTask (m\<lparr>calls := calls m @ [GetTask q]\<rparr>) q = None"
    using assms(3) by (simp add: getTask_None)
  with assms(1,2) show ?thesis
    by (simp add: ensureParent_def Let_def createTask_def c_path_parentInput)
qed

lemma implicitParent_xyz: "implicitParent ''x/y/z'' = Some ''x/y''"
  by code_simp

lemma parentInput_xyz:
  "parentInput ''x/y'' ''x/y/z'' =
     \<lparr> c_path = ''x/y'', c_name = ''y'', c_type = MILESTONE,
       c_description = Some ''Auto-generated parent task for x/y/z'',
       c_metadata = Some [(''autoGenerated'', JBool True), (''childPath'', JStr ''x/y/z'')],
       c_dependencies = None, c_parentPath = None \<rparr>"
  by code_simp

section \<open>Instantiation: a call returns, and what it creates\<close>

lemma createTask_accept:
  "\<not> createRejected C (stored m) i \<Longrightarrow>
   createTask C m i = (Inr (), m\<lparr>stored := stored m @ [i], calls := calls m @ [CreateTask i]\<rparr>)"
  by (simp add: createTask_def)

lemma ensureParent_accept:
  assumes "accepting C"
  shows "\<exists>m1. ensureParent C m np = (Inr (), m1) \<and>
              processingTemplates m1 = processingTemplates m \<and>
              stored m1 = stored m @ missingParent m np \<and>
              autoGenerated m1 = autoGenerated m @ map c_path (missingParent m np)"
proof (cases "implicitParent np")
  case None
  then show ?thesis by (simp add: ensureParent_def missingParent_def)
next
  case (Some q)
  show ?thesis
  proof (cases "q \<noteq> [] \<and> q \<notin> c_path ` set (stored m)")
    case True
    then have "ensureParent C m np =
       (Inr (), m\<lparr>stored := stored m @ [parentInput q np],
                      calls := calls m @ [GetTask q, CreateTask (parentInput q np)],
                      autoGenerated := autoGenerated m @ [q]\<rparr>)"
      using ensureParent_missing[OF Some, of m C] assms by (simp add: accepting_def)
    with Some True show ?thesis by (simp add: missingParent_def c_path_parentInput)
  next
    case False
    show ?thesis
    proof (cases "q = []")
      case True
      with Some show ?thesis by (simp add: ensureParent_def missingParent_def)
    next
      case nonempty: False
      with False have "q \<in> c_path ` set (stored m)" by simp
      then have "getTask (m\<lparr>calls := calls m @ [GetTask q]\<rparr>) q \<noteq> None"
        by (simp add: getTask_None)
      with Some nonempty False show ?thesis
        by (auto simp: ensureParent_def missingParent_def Let_def)
    qed
  qed
qed

lemma processTemplateTask_plain:
  assumes "templateRefOf C t vars = None" and "accepting C"
  shows "\<exists>m'. processTemplateTask n C m t vars pp = Some (Inr (), m') \<and>
              processingTemplates m' = processingTemplates m \<and>
              stored m' = stored m @ missingParent m (resolvePath C pp vars (path t)) @
                            [taskInput C t vars pp (transformedMetadata C t vars)] \<and>
              autoGenerated m' =
                autoGenerated m @ map c_path (missingParent m (resolvePath C pp vars (path t)))"
proof -
  let ?np = "resolvePath C pp vars (path t)"
  let ?main = "taskInput C t vars pp (transformedMetadata C t vars)"
  from ensureParent_accept[OF assms(2), of m ?np] obtain m1 where
    e: "ensureParent C m ?np = (Inr (), m1)" and
    p: "processingTemplates m1 = processingTemplates m" and
    s: "stored m1 = stored m @ missingParent m ?np" and
    a: "autoGenerated m1 = autoGenerated m @ map c_path (missingParent m ?np)"
    by blast
  have c: "createTask C m1 ?main =
             (Inr (), m1\<lparr>stored := stored m1 @ [?main], calls := calls m1 @ [CreateTask ?main]\<rparr>)"
    using assms(2) by (intro createTask_accept) (simp add: accepting_def)
  have "processTemplateTask n C m t vars pp =
          Some (Inr (), m1\<lparr>stored := stored m1 @ [?main], calls := calls m1 @ [CreateTask ?main]\<rparr>)"
    using e c assms(1) by (simp add: Let_def)
  with p s a show ?thesis by simp
qed

lemma processTasks_plain_total:
  assumes "\<forall>t \<in> set ts. templateRefOf C t vars = None" and "accepting C"
  shows "\<exists>m'. processTasks n C m ts vars pp = Some (Inr (), m') \<and>
              processingTemplates m' = processingTemplates m"
  using assms(1)
proof (induction ts arbitrary: m)
  case Nil
  then show ?case by simp
next
  case (Cons t ts)
  from Cons.prems have "templateRefOf C t vars = None" by simp
  from processTemplateTask_plain[OF this assms(2), of n m pp] obtain m1 where
    a: "processTemplateTask n C m t vars pp = Some (Inr (), m1)" and
    p: "processingTemplates m1 = processingTemplates m" by blast
  from Cons.prems have "\<forall>t \<in> set ts. templateRefOf C t vars = None" by simp
  from Cons.IH[OF this, of m1] obtain m' where
    "processTasks n C m1 ts vars pp = Some (Inr (), m')" "processingTemplates m' = processingTemplates m1"
    by blast
  with a p show ?case by simp
qed

lemma sortTasks_total: 
  assumes "length (dependencyGraph C tasks vars pp) < n"
  shows "\<exists>out. sortTasks n C tasks vars pp = Some out"
  using sortedPaths_total[OF assms] by (auto simp: sortTasks_def)

lemma sortTasks_subset:
  assumes "sortTasks n C tasks vars pp = Some out"
  shows "set out \<subseteq> set tasks"
proof -
  from sortTasks_SomeD[OF assms] obtain S where
    "out = List.map_filter (taskMapOf C tasks vars pp) S" by blast
  then show ?thesis by (auto simp: set_map_filter dest: taskMapOf_SomeD)
qed

lemma sortTasks_nodes:
  assumes "sortTasks n C tasks vars pp = Some out"
  shows "nodeOf C vars pp ` set out = nodeOf C vars pp ` set tasks"
proof -
  from sortTasks_SomeD[OF assms] obtain S where
    S: "sortedPaths n C tasks vars pp = Some S" and
    out: "out = List.map_filter (taskMapOf C tasks vars pp) S" by blast
  have "nodeOf C vars pp ` set out = set (map (nodeOf C vars pp) out)" by simp
  also have "\<dots> = set (filter (\<lambda>q. taskMapOf C tasks vars pp q \<noteq> None) S)"
    unfolding out map_filter_nodes ..
  also have "\<dots> = nodeOf C vars pp ` set tasks" by (rule sorted_nodes(2)[OF S])
  finally show ?thesis .
qed

lemma instantiate_plain_total:
  assumes "templateId opts \<notin> processingTemplates m"
    and "getTemplate C (templateId opts) = Some tmpl"
    and "vars = applyDefaults (t_variables tmpl) (opt_variables opts)"
    and "validateRequiredVariables (t_variables tmpl) vars = []"
    and "\<forall>t \<in> set (t_tasks tmpl). templateRefOf C t vars = None"
    and "accepting C"
    and "length (dependencyGraph C (t_tasks tmpl) vars (parentPath opts)) < n"
  shows "\<exists>m'. instantiateTemplate (Suc n) C m opts = Some (Inr (), m')"
proof -
  let ?m0 = "m\<lparr>processingTemplates := insert (templateId opts) (processingTemplates m)\<rparr>"
  let ?m1 = "?m0\<lparr>calls := calls ?m0 @ [GetTemplate (templateId opts)]\<rparr>"
  from sortTasks_total[OF assms(7)] obtain out where
    s: "sortTasks n C (t_tasks tmpl) vars (parentPath opts) = Some out" by blast
  from sortTasks_subset[OF s] assms(5) have "\<forall>t \<in> set out. templateRefOf C t vars = None" by blast
  from processTasks_plain_total[OF this assms(6), of n ?m1 "parentPath opts"] obtain m2 where
    p: "processTasks n C ?m1 out vars (parentPath opts) = Some (Inr (), m2)" by blast
  have "instantiateBody n C ?m0 opts = Some (Inr (), m2)"
    using assms(2,4) s p unfolding assms(3) by (simp add: Let_def)
  with assms(1) show ?thesis by simp
qed

lemma processTemplateTask_creates:
  assumes "processTemplateTask n C m t vars pp = Some (Inr u, m')"
  shows "\<exists>xs. stored m' = stored m @ xs \<and> nodeOf C vars pp t \<in> c_path ` set xs"
proof -
  let ?np = "resolvePath C pp vars (path t)"
  obtain r1 m1 where e: "ensureParent C m ?np = (r1, m1)" by (cases "ensureParent C m ?np")
  note pc = processTemplateTask_cases[OF assms e]
  from pc have r1: "\<exists>u1. r1 = Inr u1" by (cases r1) auto
  from ensureParent_grows[OF e] obtain xs1 where x1: "stored m1 = stored m @ xs1"
    by (auto simp: grows_def)
  show ?thesis
  proof (cases "templateRefOf C t vars")
    case None
    let ?main = "taskInput C t vars pp (transformedMetadata C t vars)"
    from pc r1 None have c: "createTask C m1 ?main = (Inr u, m')" by auto
    from createTask_cases[OF c] have "stored m' = stored m1 @ [?main]" by auto
    with x1 have "stored m' = stored m @ (xs1 @ [?main])" by simp
    moreover have "c_path ?main = nodeOf C vars pp t" by (simp add: taskInput_def nodeOf_def)
    ultimately show ?thesis by force
  next
    case (Some ref)
    let ?main = "taskInput C t vars pp (map_option (removeTemplateRef C) (transformedMetadata C t vars))"
    obtain r2 m2 where c: "createTask C m1 ?main = (r2, m2)" by (cases "createTask C m1 ?main")
    from pc r1 Some c have
      f: "\<forall>e. r2 = Inl e \<longrightarrow> Inr u = (Inl e :: error + unit) \<and> m' = m2" and
      g: "\<forall>u2. r2 = Inr u2 \<longrightarrow>
            instantiateTemplate n C m2
              \<lparr>templateId = template ref, opt_variables = ref_variables ref,
               parentPath = Some ?np\<rparr> = Some (Inr u, m')"
      by blast+
    from f have r2: "r2 = Inr ()" by (cases r2) auto
    from createTask_cases[OF c] r2 have s2: "stored m2 = stored m1 @ [?main]" by auto
    from g r2 have "grows m2 m'" by (auto dest: run_grows(1))
    then obtain xs3 where "stored m' = stored m2 @ xs3" by (auto simp: grows_def)
    with s2 x1 have "stored m' = stored m @ (xs1 @ [?main] @ xs3)" by simp
    moreover have "c_path ?main = nodeOf C vars pp t" by (simp add: taskInput_def nodeOf_def)
    ultimately show ?thesis by force
  qed
qed

lemma processTasks_creates:
  "processTasks n C m ts vars pp = Some (Inr u, m') \<Longrightarrow>
   \<exists>xs. stored m' = stored m @ xs \<and> nodeOf C vars pp ` set ts \<subseteq> c_path ` set xs"
proof (induction ts arbitrary: m)
  case Nil
  then show ?case by simp
next
  case (Cons t ts)
  from Cons.prems obtain u1 m1 where
    a: "processTemplateTask n C m t vars pp = Some (Inr u1, m1)" and
    b: "processTasks n C m1 ts vars pp = Some (Inr u, m')"
    by (auto split: option.splits sum.splits)
  from processTemplateTask_creates[OF a] obtain xs1 where
    x1: "stored m1 = stored m @ xs1" "nodeOf C vars pp t \<in> c_path ` set xs1" by blast
  from Cons.IH[OF b] obtain xs2 where
    x2: "stored m' = stored m1 @ xs2" "nodeOf C vars pp ` set ts \<subseteq> c_path ` set xs2" by blast
  from x1 x2 have "stored m' = stored m @ (xs1 @ xs2)" by simp
  moreover from x1 x2 have "nodeOf C vars pp ` set (t # ts) \<subseteq> c_path ` set (xs1 @ xs2)" by auto
  ultimately show ?case by blast
qed

lemma instantiate_creates:
  assumes "instantiateTemplate n C m opts = Some (Inr u, m')"
    and "getTemplate C (templateId opts) = Some tmpl"
    and "vars = applyDefaults (t_variables tmpl) (opt_variables opts)"
  shows "\<exists>xs. stored m' = stored m @ xs \<and>
              nodeOf C vars (parentPath opts) ` set (t_tasks tmpl) \<subseteq> c_path ` set xs"
proof -
  let ?pp = "parentPath opts"
  let ?m0 = "m\<lparr>processingTemplates := insert (templateId opts) (processingTemplates m)\<rparr>"
  let ?m1 = "?m0\<lparr>calls := calls ?m0 @ [GetTemplate (templateId opts)]\<rparr>"
  from assms(1) obtain k where n: "n = Suc k" by (cases n) auto
  from assms(1) have np: "templateId opts \<notin> processingTemplates m"
    unfolding n by (auto split: if_splits)
  with assms(1) obtain m2 where
    b: "instantiateBody k C ?m0 opts = Some (Inr u, m2)" and
    m': "m' = m2\<lparr>processingTemplates := processingTemplates m2 - {templateId opts}\<rparr>"
    unfolding n by (auto split: option.splits)
  from b assms(2,3) obtain out where
    s: "sortTasks k C (t_tasks tmpl) vars ?pp = Some out" and
    p: "processTasks k C ?m1 out vars ?pp = Some (Inr u, m2)"
    by (auto simp: Let_def split: if_splits option.splits)
  from processTasks_creates[OF p] obtain xs where
    "stored m2 = stored ?m1 @ xs" "nodeOf C vars ?pp ` set out \<subseteq> c_path ` set xs" by blast
  with sortTasks_nodes[OF s] m' show ?thesis by auto
qed

lemma processTasks_single:
  "processTasks n C m [t] vars pp =
     (case processTemplateTask n C m t vars pp of
        None \<Rightarrow> None
      | Some (r, m') \<Rightarrow> Some (r, m'))"
  by (auto split: option.splits sum.splits)

lemma single_blueprint_total:
  assumes np: "templateId opts \<notin> processingTemplates m"
    and tm: "getTemplate C (templateId opts) = Some tmpl"
    and ts: "t_tasks tmpl = [t]"
    and vars: "vars = applyDefaults (t_variables tmpl) (opt_variables opts)"
    and val: "validateRequiredVariables (t_variables tmpl) vars = []"
    and nd: "nodeOf C vars (parentPath opts) t = ''x/y/z''"
    and st: "stored m = []"
    and main: "main = taskInput C t vars (parentPath opts)
                 (case templateRefOf C t vars of
                    None \<Rightarrow> transformedMetadata C t vars
                  | Some ref \<Rightarrow> map_option (removeTemplateRef C) (transformedMetadata C t vars))"
    and rp: "\<not> createRejected C [] (parentInput ''x/y'' ''x/y/z'')"
    and rm: "\<not> createRejected C [parentInput ''x/y'' ''x/y/z''] main"
    and fuel: "length (dependencyGraph C [t] vars (parentPath opts)) < n"
  shows "\<exists>m2. stored m2 = [parentInput ''x/y'' ''x/y/z'', main] \<and>
              autoGenerated m2 = autoGenerated m @ [''x/y''] \<and>
              (case templateRefOf C t vars of
                 None \<Rightarrow> instantiateTemplate (Suc n) C m opts = Some (Inr (), m2)
               | Some ref \<Rightarrow>
                   instantiateTemplate (Suc n) C m opts =
                     map_option
                       (\<lambda>(r, m'). (r, m'\<lparr>processingTemplates := processingTemplates m' - {templateId opts}\<rparr>))
                       (instantiateTemplate n C m2
                          \<lparr>templateId = template ref, opt_variables = ref_variables ref,
                           parentPath = Some ''x/y/z''\<rparr>))"
proof -
  let ?pp = "parentPath opts"
  let ?P = "parentInput ''x/y'' ''x/y/z''"
  let ?rel = "\<lambda>(r, m'). (r, m'\<lparr>processingTemplates := processingTemplates m' - {templateId opts}\<rparr>)"
  let ?m0 = "m\<lparr>processingTemplates := insert (templateId opts) (processingTemplates m)\<rparr>"
  let ?m1 = "?m0\<lparr>calls := calls ?m0 @ [GetTemplate (templateId opts)]\<rparr>"
  let ?ma = "?m1\<lparr>stored := stored ?m1 @ [?P],
                   calls := calls ?m1 @ [GetTask ''x/y'', CreateTask ?P],
                   autoGenerated := autoGenerated ?m1 @ [''x/y'']\<rparr>"
  let ?mb = "?ma\<lparr>stored := stored ?ma @ [main], calls := calls ?ma @ [CreateTask main]\<rparr>"
  from sortTasks_total[OF fuel] obtain out where
    s0: "sortTasks n C [t] vars ?pp = Some out" by blast
  from sortTasks_single[OF s0] s0 have s: "sortTasks n C [t] vars ?pp = Some [t]" by simp
  have body: "instantiateBody n C ?m0 opts =
                (case processTemplateTask n C ?m1 t vars ?pp of
                   None \<Rightarrow> None | Some (r, m') \<Rightarrow> Some (r, m'))"
    using tm val s unfolding vars ts[symmetric]
    by (simp add: Let_def ts processTasks_single del: processTasks.simps)
  have rp': "resolvePath C ?pp vars (path t) = ''x/y/z''" using nd by (simp add: nodeOf_def)
  have miss: "''x/y'' \<notin> c_path ` set (stored ?m1)" using st by simp
  have e: "ensureParent C ?m1 ''x/y/z'' = (Inr (), ?ma)"
    using ensureParent_missing[OF implicitParent_xyz _ miss, of C] rp st by simp
  have c: "createTask C ?ma main = (Inr (), ?mb)"
    using rm st by (intro createTask_accept) simp
  have sb: "stored ?mb = [?P, main]" "autoGenerated ?mb = autoGenerated m @ [''x/y'']"
    using st by simp_all
  show ?thesis
  proof (cases "templateRefOf C t vars")
    case None
    with main have mn: "main = taskInput C t vars ?pp (transformedMetadata C t vars)" by simp
    have "processTemplateTask n C ?m1 t vars ?pp = Some (Inr (), ?mb)"
      using e c None unfolding mn by (simp add: Let_def rp')
    with body have "instantiateBody n C ?m0 opts = Some (Inr (), ?mb)" by simp
    with np have r: "instantiateTemplate (Suc n) C m opts =
        Some (Inr (), ?mb\<lparr>processingTemplates := processingTemplates ?mb - {templateId opts}\<rparr>)"
      by simp
    let ?mc = "?mb\<lparr>processingTemplates := processingTemplates ?mb - {templateId opts}\<rparr>"
    have sc: "stored ?mc = [?P, main]" "autoGenerated ?mc = autoGenerated m @ [''x/y'']"
      using st by simp_all
    have "stored ?mc = [?P, main] \<and> autoGenerated ?mc = autoGenerated m @ [''x/y''] \<and>
                 instantiateTemplate (Suc n) C m opts = Some (Inr (), ?mc)"
      by (rule conjI[OF sc(1) conjI[OF sc(2) r]])
    then show ?thesis unfolding None option.case by (rule exI[of _ ?mc])
  next
    case (Some ref)
    let ?nested = "\<lparr>templateId = template ref, opt_variables = ref_variables ref,
                           parentPath = Some ''x/y/z''\<rparr>"
    from Some main have mn:
      "main = taskInput C t vars ?pp (map_option (removeTemplateRef C) (transformedMetadata C t vars))"
      by simp
    have "processTemplateTask n C ?m1 t vars ?pp = instantiateTemplate n C ?mb ?nested"
      using e c Some unfolding mn by (simp add: Let_def rp')
    with body have "instantiateBody n C ?m0 opts =
         (case instantiateTemplate n C ?mb ?nested of None \<Rightarrow> None | Some (r, m') \<Rightarrow> Some (r, m'))"
      by simp
    with np have r: "instantiateTemplate (Suc n) C m opts =
                       map_option ?rel (instantiateTemplate n C ?mb ?nested)"
      by (simp split: option.splits)
    have "stored ?mb = [?P, main] \<and> autoGenerated ?mb = autoGenerated m @ [''x/y''] \<and>
                 instantiateTemplate (Suc n) C m opts =
                   map_option ?rel (instantiateTemplate n C ?mb ?nested)"
      by (rule conjI[OF sb(1) conjI[OF sb(2) r]])
    then show ?thesis unfolding Some option.case by (rule exI[of _ ?mb])
  qed
qed

lemma pair_permutation:
  assumes "mset out = {#a, b#}"
  shows "out = [a, b] \<or> out = [b, a]"
proof -
  from assms have "length out = 2" by (metis size_mset size_add_mset size_empty numeral_2_eq_2)
  then obtain x y where o: "out = [x, y]"
    by (metis (no_types, opaque_lifting) length_0_conv length_Suc_conv numeral_2_eq_2)
  with assms have "{#x, y#} = {#a, b#}" by simp
  then have "x = a \<and> y = b \<or> x = b \<and> y = a"
    by (auto simp: add_eq_conv_diff)
  with o show ?thesis by auto
qed

lemma processTasks_two_plain:
  assumes ra: "templateRefOf C a vars = None" and rb: "templateRefOf C b vars = None"
    and acc: "accepting C"
    and pa: "implicitParent (nodeOf C vars pp a) = Some q"
    and pb: "implicitParent (nodeOf C vars pp b) = Some q"
    and q: "q \<noteq> []" "q \<notin> c_path ` set (stored m)"
  shows "\<exists>m'. processTasks n C m [a, b] vars pp = Some (Inr (), m') \<and>
              processingTemplates m' = processingTemplates m \<and>
              stored m' = stored m @
                [parentInput q (nodeOf C vars pp a),
                 taskInput C a vars pp (transformedMetadata C a vars),
                 taskInput C b vars pp (transformedMetadata C b vars)] \<and>
              autoGenerated m' = autoGenerated m @ [q]"
proof -
  let ?na = "resolvePath C pp vars (path a)"
  let ?nb = "resolvePath C pp vars (path b)"
  let ?ma = "taskInput C a vars pp (transformedMetadata C a vars)"
  let ?mb = "taskInput C b vars pp (transformedMetadata C b vars)"
  have mpa: "missingParent m ?na = [parentInput q ?na]"
    using pa q by (simp add: missingParent_def nodeOf_def)
  from processTemplateTask_plain[OF ra acc, of n m pp] obtain m1 where
    a: "processTemplateTask n C m a vars pp = Some (Inr (), m1)" and
    p1: "processingTemplates m1 = processingTemplates m" and
    s1: "stored m1 = stored m @ [parentInput q ?na, ?ma]" and
    a1: "autoGenerated m1 = autoGenerated m @ [q]"
    unfolding mpa by (auto simp: c_path_parentInput)
  have "q \<in> c_path ` set (stored m1)" unfolding s1 by (simp add: c_path_parentInput)
  then have mpb: "missingParent m1 ?nb = []"
    using pb by (simp add: missingParent_def nodeOf_def)
  from processTemplateTask_plain[OF rb acc, of n m1 pp] obtain m2 where
    b: "processTemplateTask n C m1 b vars pp = Some (Inr (), m2)" and
    p2: "processingTemplates m2 = processingTemplates m1" and
    s2: "stored m2 = stored m1 @ [?mb]" and
    a2: "autoGenerated m2 = autoGenerated m1"
    unfolding mpb by auto
  have "processTasks n C m [a, b] vars pp = Some (Inr (), m2)" using a b by simp
  with p1 p2 s1 s2 a1 a2 show ?thesis by (simp add: nodeOf_def)
qed

lemma siblings_total:
  assumes np: "templateId opts \<notin> processingTemplates m"
    and tm: "getTemplate C (templateId opts) = Some tmpl"
    and ts: "t_tasks tmpl = [t1, t2]"
    and vars: "vars = applyDefaults (t_variables tmpl) (opt_variables opts)"
    and val: "validateRequiredVariables (t_variables tmpl) vars = []"
    and r1: "templateRefOf C t1 vars = None" and r2: "templateRefOf C t2 vars = None"
    and ne: "nodeOf C vars (parentPath opts) t1 \<noteq> nodeOf C vars (parentPath opts) t2"
    and p1: "implicitParent (nodeOf C vars (parentPath opts) t1) = Some q"
    and p2: "implicitParent (nodeOf C vars (parentPath opts) t2) = Some q"
    and q: "q \<noteq> []" "q \<notin> c_path ` set (stored m)"
    and acc: "accepting C"
    and fuel: "length (dependencyGraph C [t1, t2] vars (parentPath opts)) < n"
  shows "\<exists>a b m'. (a = t1 \<and> b = t2 \<or> a = t2 \<and> b = t1) \<and>
           instantiateTemplate (Suc n) C m opts = Some (Inr (), m') \<and>
           processingTemplates m' = processingTemplates m \<and>
           stored m' = stored m @
             [parentInput q (nodeOf C vars (parentPath opts) a),
              taskInput C a vars (parentPath opts) (transformedMetadata C a vars),
              taskInput C b vars (parentPath opts) (transformedMetadata C b vars)] \<and>
           autoGenerated m' = autoGenerated m @ [q]"
proof -
  let ?pp = "parentPath opts"
  let ?m0 = "m\<lparr>processingTemplates := insert (templateId opts) (processingTemplates m)\<rparr>"
  let ?m1 = "?m0\<lparr>calls := calls ?m0 @ [GetTemplate (templateId opts)]\<rparr>"
  from sortTasks_total[OF fuel] obtain out where
    s: "sortTasks n C [t1, t2] vars ?pp = Some out" by blast
  have "distinct (map (nodeOf C vars ?pp) [t1, t2])" using ne by simp
  from sortTasks_permutation[OF s this] have "mset out = {#t1, t2#}" by simp
  from pair_permutation[OF this] obtain a b where
    ab: "a = t1 \<and> b = t2 \<or> a = t2 \<and> b = t1" and out: "out = [a, b]" by blast
  from ab r1 r2 p1 p2 have
    ra: "templateRefOf C a vars = None" and rb: "templateRefOf C b vars = None" and
    pa: "implicitParent (nodeOf C vars ?pp a) = Some q" and
    pb: "implicitParent (nodeOf C vars ?pp b) = Some q" by auto
  have q1: "q \<notin> c_path ` set (stored ?m1)" using q(2) by simp
  from processTasks_two_plain[OF ra rb acc pa pb q(1) q1, of n] obtain m2 where
    p: "processTasks n C ?m1 [a, b] vars ?pp = Some (Inr (), m2)" and
    pr: "processingTemplates m2 = processingTemplates ?m1" and
    st: "stored m2 = stored ?m1 @
                [parentInput q (nodeOf C vars ?pp a),
                 taskInput C a vars ?pp (transformedMetadata C a vars),
                 taskInput C b vars ?pp (transformedMetadata C b vars)]" and
    au: "autoGenerated m2 = autoGenerated ?m1 @ [q]" by blast
  have "instantiateBody n C ?m0 opts = Some (Inr (), m2)"
    using tm val s p unfolding vars ts[symmetric] out
    by (simp add: Let_def ts del: processTasks.simps)
  with np have r: "instantiateTemplate (Suc n) C m opts =
        Some (Inr (), m2\<lparr>processingTemplates := processingTemplates m2 - {templateId opts}\<rparr>)"
    by simp
  let ?mc = "m2\<lparr>processingTemplates := processingTemplates m2 - {templateId opts}\<rparr>"
  have "processingTemplates ?mc = processingTemplates m" using pr np by auto
  moreover have "stored ?mc = stored m @
             [parentInput q (nodeOf C vars ?pp a),
              taskInput C a vars ?pp (transformedMetadata C a vars),
              taskInput C b vars ?pp (transformedMetadata C b vars)]"
    using st by simp
  moreover have "autoGenerated ?mc = autoGenerated m @ [q]" using au by simp
  ultimately show ?thesis using ab r by blast
qed

section \<open>The resolved variables\<close>

lemma applyDefaults_apply:
  "applyDefaults decls vars k =
     (case vars k of
        Some x \<Rightarrow> Some x
      | None \<Rightarrow>
          if k \<in> set objectPrototypeKeys then None
          else
            (case find (\<lambda>v. name v = k \<and> default_value v \<noteq> None) decls of
               None \<Rightarrow> None
             | Some v \<Rightarrow> default_value v))"
proof (induction decls arbitrary: vars)
  case Nil
  then show ?case by (simp split: option.splits)
next
  case (Cons v decls)
  show ?case
  proof (cases "\<not> inOperator (name v) vars \<and> default_value v \<noteq> None")
    case True
    then obtain d where d: "default_value v = Some d" and n: "vars (name v) = None"
      and np: "name v \<notin> set objectPrototypeKeys"
      by (auto simp: inOperator_def)
    have step: "applyDefaults (v # decls) vars k = applyDefaults decls (vars(name v \<mapsto> d)) k"
      using d True by simp
    show ?thesis
    proof (cases "k = name v")
      case True
      with d n np show ?thesis unfolding step Cons.IH by simp
    next
      case False
      then have "(vars(name v \<mapsto> d)) k = vars k" by simp
      with False show ?thesis unfolding step Cons.IH by (cases "vars k") auto
    qed
  next
    case False
    then have step: "applyDefaults (v # decls) vars k = applyDefaults decls vars k" by auto
    have "find (\<lambda>w. name w = k \<and> default_value w \<noteq> None) (v # decls) =
            find (\<lambda>w. name w = k \<and> default_value w \<noteq> None) decls"
      if "vars k = None" "k \<notin> set objectPrototypeKeys"
      using that False by (auto simp: inOperator_def)
    then show ?thesis unfolding step Cons.IH by (cases "vars k") simp_all
  qed
qed

lemma find_distinct_name:
  assumes "distinct (map name decls)" and "v \<in> set decls" and "default_value v \<noteq> None"
  shows "find (\<lambda>w. name w = name v \<and> default_value w \<noteq> None) decls = Some v"
  using assms
proof (induction decls)
  case Nil
  then show ?case by simp
next
  case (Cons w decls)
  show ?case
  proof (cases "w = v")
    case True
    with Cons.prems show ?thesis by simp
  next
    case False
    with Cons.prems have v: "v \<in> set decls" by simp
    with Cons.prems have "name w \<noteq> name v" by auto
    with Cons v show ?thesis by simp
  qed
qed

text \<open>
  With unique names, the loop gives every name that a plain object does not inherit what the
  merge of defaults is meant to give it; a name that is inherited and not supplied stays absent,
  whatever its declaration says.
\<close>

lemma own_names_resolved:
  assumes "distinct (map name decls)"
  shows "(\<forall>k x. supplied k = Some x \<longrightarrow> applyDefaults decls supplied k = Some x) \<and>
         (\<forall>v \<in> set decls. \<forall>d.
            supplied (name v) = None \<and> default_value v = Some d \<and>
            name v \<notin> set objectPrototypeKeys \<longrightarrow>
            applyDefaults decls supplied (name v) = Some d) \<and>
         (\<forall>k. supplied k = None \<and> k \<in> set objectPrototypeKeys \<longrightarrow>
            applyDefaults decls supplied k = None) \<and>
         (\<forall>k. supplied k = None \<and> (\<forall>v \<in> set decls. name v = k \<longrightarrow> default_value v = None) \<longrightarrow>
            applyDefaults decls supplied k = None)"
proof (intro conjI allI ballI impI)
  fix k x assume "supplied k = Some x"
  then show "applyDefaults decls supplied k = Some x" by (simp add: applyDefaults_apply)
next
  fix v d assume v: "v \<in> set decls"
    and "supplied (name v) = None \<and> default_value v = Some d \<and> name v \<notin> set objectPrototypeKeys"
  then have s: "supplied (name v) = None" and d: "default_value v = Some d"
    and o: "name v \<notin> set objectPrototypeKeys" by simp_all
  from find_distinct_name[OF assms v] d
  have "find (\<lambda>w. name w = name v \<and> default_value w \<noteq> None) decls = Some v" by simp
  with s d o show "applyDefaults decls supplied (name v) = Some d" by (simp add: applyDefaults_apply)
next
  fix k assume "supplied k = None \<and> k \<in> set objectPrototypeKeys"
  then show "applyDefaults decls supplied k = None" by (simp add: applyDefaults_apply)
next
  fix k assume a: "supplied k = None \<and> (\<forall>v \<in> set decls. name v = k \<longrightarrow> default_value v = None)"
  then have "find (\<lambda>v. name v = k \<and> default_value v \<noteq> None) decls = None"
    by (auto simp: find_None_iff)
  with a show "applyDefaults decls supplied k = None" by (simp add: applyDefaults_apply)
qed

section \<open>The example runs\<close>

lemma selfReference_run:
  "instantiateTemplate 4 exampleCollaborators emptyManager (request ''T1'') =
     Some (Inl (CircularTemplateReference ''T1''), inFlight\<lparr>processingTemplates := {}\<rparr>)"
  by code_simp

lemma groupBlueprint_ref:
  "templateRefOf exampleCollaborators groupBlueprint Map.empty =
     Some \<lparr>template = ''N2'', ref_variables = Map.empty\<rparr>"
  by (simp add: templateRefOf_def transformedMetadata_def groupBlueprint_def blueprint_def
      exampleCollaborators_def plainCollaborators_def)

lemma single_run:
  "instantiateTemplate 4 exampleCollaborators emptyManager (request ''T'') = Some (Inr (), singleResult)"
  by code_simp

lemma sibling_run:
  "instantiateTemplate 4 exampleCollaborators emptyManager (request ''S'') = Some (Inr (), siblingResult)"
  by code_simp

lemma nested_run:
  "instantiateTemplate 4 exampleCollaborators mountedBefore nestedRequest = Some (Inr (), mounted)"
  by code_simp

lemma group_parent:
  "ensureParent exampleCollaborators emptyManager ''mount'' = (Inr (), emptyManager)"
  by code_simp

lemma example_plain: "templateRefOf exampleCollaborators (blueprint p []) Map.empty = None"
  by (simp add: templateRefOf_def transformedMetadata_def blueprint_def)

lemma example_accepting: "accepting exampleCollaborators"
  by (simp add: accepting_def exampleCollaborators_def plainCollaborators_def)

lemma example_children:
  "taskInput exampleCollaborators (blueprint ''x/y/z'' []) Map.empty None
     (transformedMetadata exampleCollaborators (blueprint ''x/y/z'' []) Map.empty) = xyChild ''x/y/z''"
  "taskInput exampleCollaborators (blueprint ''x/y/a'' []) Map.empty None
     (transformedMetadata exampleCollaborators (blueprint ''x/y/a'' []) Map.empty) = xyChild ''x/y/a''"
  "taskInput exampleCollaborators (blueprint ''x/y/b'' []) Map.empty None
     (transformedMetadata exampleCollaborators (blueprint ''x/y/b'' []) Map.empty) = xyChild ''x/y/b''"
  by code_simp+

lemma example_parents:
  "parentInput ''x/y'' ''x/y/z'' = xyParent ''x/y/z''"
  "parentInput ''x/y'' ''x/y/a'' = xyParent ''x/y/a''"
  "parentInput ''x/y'' ''x/y/b'' = xyParent ''x/y/b''"
  by code_simp+

lemma example_nodes:
  "nodeOf exampleCollaborators Map.empty None (blueprint ''x/y/z'' []) = ''x/y/z''"
  "nodeOf exampleCollaborators Map.empty None (blueprint ''x/y/a'' []) = ''x/y/a''"
  "nodeOf exampleCollaborators Map.empty None (blueprint ''x/y/b'' []) = ''x/y/b''"
  "implicitParent ''x/y/a'' = Some ''x/y''"
  "implicitParent ''x/y/b'' = Some ''x/y''"
  by code_simp+

lemma example_graphs:
  "length (dependencyGraph exampleCollaborators [blueprint ''x/y/z'' []] Map.empty None) < 3"
  "length (dependencyGraph exampleCollaborators [blueprint ''x/y/a'' [], blueprint ''x/y/b'' []]
             Map.empty None) < 4"
  by code_simp+

lemma example_templates:
  "getTemplate exampleCollaborators ''T'' =
     Some \<lparr>t_id = ''T'', t_variables = [], t_tasks = [blueprint ''x/y/z'' []]\<rparr>"
  "getTemplate exampleCollaborators ''S'' =
     Some \<lparr>t_id = ''S'', t_variables = [],
            t_tasks = [blueprint ''x/y/a'' [], blueprint ''x/y/b'' []]\<rparr>"
  by (simp_all add: exampleCollaborators_def exampleTemplates_def)

lemma example_rejects: "\<not> createRejected exampleCollaborators ts i"
  by (simp add: exampleCollaborators_def plainCollaborators_def)

section \<open>Claims about the sorter\<close>

text \<open>
  Claim C1. For every acyclic set of blueprints and every variable context, the sequence returned
  by \<^verbatim>\<open>sortTasks\<close> places each blueprint after every blueprint named by one of its explicit
  dependencies (interpolated and normalized) and after the blueprint at its derived parent path,
  whatever the order of declaration: if the node \<open>r\<close> of such a dependency or parent is the node of
  a blueprint of the call, a blueprint at \<open>r\<close> stands at an earlier position of the output.
\<close>

theorem sortTasks_dependencies_first:
  assumes "acyclic (blueprintEdges C vars pp tasks)"
    and "sortTasks n C tasks vars pp = Some out"
    and "i < length out"
    and "r \<in> set (dependencyNodes C vars pp (out ! i)) \<or>
         implicitParent (nodeOf C vars pp (out ! i)) = Some r"
    and "r \<in> nodeOf C vars pp ` set tasks"
  shows "\<exists>j < i. nodeOf C vars pp (out ! j) = r"
proof -
  let ?g = "dependencyGraph C tasks vars pp"
  let ?tm = "taskMapOf C tasks vars pp"
  from sortTasks_SomeD[OF assms(2)] obtain S where
    S: "sortedPaths n C tasks vars pp = Some S" and out: "out = List.map_filter ?tm S" by blast
  have "acyclic (edges ?g)"
    using assms(1) graph_edges_subset by (rule acyclic_subset)
  from sortedPaths_ordered[OF S this] have ord: "dep_ordered ?g S" .
  have "out = take i out @ out ! i # drop (Suc i) out"
    using assms(3) by (rule id_take_nth_drop)
  with out have "List.map_filter ?tm S = take i out @ out ! i # drop (Suc i) out" by simp
  from map_filter_split[OF this] obtain S1 q S2 where
    sp: "S = S1 @ q # S2" and q: "?tm q = Some (out ! i)" and pre: "List.map_filter ?tm S1 = take i out"
    by blast
  from taskMapOf_SomeD[OF q] have nq: "nodeOf C vars pp (out ! i) = q" by simp
  from assms(4) have "r \<in> set (targets C vars pp (out ! i))"
    by (auto simp: targets_def)
  with graph_edges_task[OF q] have "r \<in> set (edgesOf ?g q)" by simp
  with dep_ordered_split[OF ord sp] have r1: "r \<in> set S1" by blast
  from assms(5) have "r \<in> dom ?tm" by (simp add: taskMapOf_dom)
  then obtain t' where t': "?tm r = Some t'" by blast
  with r1 have "t' \<in> set (List.map_filter ?tm S1)" by (auto simp: set_map_filter)
  with pre have "t' \<in> set (take i out)" by simp
  then obtain j where j: "j < length (take i out)" "take i out ! j = t'"
    by (auto simp: in_set_conv_nth)
  then have "j < i" "out ! j = t'" by simp_all
  with taskMapOf_SomeD[OF t'] show ?thesis by blast
qed

text \<open>
  The blueprints \<^verbatim>\<open>a/b/c\<close> and \<^verbatim>\<open>a/b\<close>, declared child first, come out parent first.
\<close>

theorem sortTasks_dependencies_first_witness:
  "acyclic (blueprintEdges plainCollaborators Map.empty None nestedExample) \<and>
   sortTasks 4 plainCollaborators nestedExample Map.empty None =
     Some [blueprint ''a/b'' [], blueprint ''a/b/c'' [''a/b'']] \<and>
   (\<exists>j < 1. nodeOf plainCollaborators Map.empty None
               ([blueprint ''a/b'' [], blueprint ''a/b/c'' [''a/b'']] ! j) = ''a/b'')"
proof -
  let ?out = "[blueprint ''a/b'' [], blueprint ''a/b/c'' [''a/b'']]"
  have s: "sortTasks 4 plainCollaborators nestedExample Map.empty None = Some ?out"
    by code_simp
  have i: "1 < length ?out" by simp
  have r: "''a/b'' \<in> set (dependencyNodes plainCollaborators Map.empty None (?out ! 1)) \<or>
           implicitParent (nodeOf plainCollaborators Map.empty None (?out ! 1)) = Some ''a/b''"
    by (simp add: dependencyNodes_def blueprint_def resolvePath_def plainCollaborators_def)
  have b: "''a/b'' \<in> nodeOf plainCollaborators Map.empty None ` set nestedExample"
    by (simp add: nestedExample_def nodeOf_def blueprint_def resolvePath_def plainCollaborators_def)
  from sortTasks_dependencies_first[OF nestedExample_acyclic s i r b] nestedExample_acyclic s
  show ?thesis by blast
qed

text \<open>
  Claim C3 says that a cycle among the dependencies makes the traversal recurse without end. It
  does not: with the blueprints \<^verbatim>\<open>a\<close> and \<^verbatim>\<open>b\<close> depending on each other the graph has a cycle and
  the traversal returns, at depth 3.
\<close>

theorem cycle_terminates_counterexample:
  "\<not> acyclic (edges (dependencyGraph plainCollaborators cyclicExample Map.empty None)) \<and>
   sortTasks 3 plainCollaborators cyclicExample Map.empty None =
     Some [blueprint ''b'' [''a''], blueprint ''a'' [''b'']]"
proof -
  let ?g = "dependencyGraph plainCollaborators cyclicExample Map.empty None"
  have g: "?g = [(''a'', [''b'']), (''b'', [''a''])]" by code_simp
  have "(''a'', ''b'') \<in> edges ?g" "(''b'', ''a'') \<in> edges ?g"
    unfolding g by (simp_all add: edges_def edgesOf_def)
  then have "(''a'', ''a'') \<in> (edges ?g)\<^sup>+" by (meson trancl.simps)
  then have "\<not> acyclic (edges ?g)" by (auto simp: acyclic_def)
  moreover have "sortTasks 3 plainCollaborators cyclicExample Map.empty None =
     Some [blueprint ''b'' [''a''], blueprint ''a'' [''b'']]"
    by code_simp
  ultimately show ?thesis by blast
qed

text \<open>
  Claim C3, amended. The traversal returns for every input, with or without a cycle: a node is
  marked visited before its dependencies are entered, so no node is entered twice, and a depth
  above the number of nodes of the graph is never exceeded.
\<close>

theorem sortTasks_terminates:
  assumes "length (dependencyGraph C tasks vars pp) < n"
  shows "\<exists>out. sortTasks n C tasks vars pp = Some out"
  using sortedPaths_total[OF assms] by (auto simp: sortTasks_def)

theorem sortTasks_terminates_witness:
  "length (dependencyGraph plainCollaborators cyclicExample Map.empty None) < 3 \<and>
   (\<exists>out. sortTasks 3 plainCollaborators cyclicExample Map.empty None = Some out)"
proof -
  have l: "length (dependencyGraph plainCollaborators cyclicExample Map.empty None) < 3"
    by code_simp
  from sortTasks_terminates[OF l] l show ?thesis by blast
qed

text \<open>
  Claim C8. A dependency of a blueprint whose node is not the node of any blueprint of the call is
  entered in the graph as a node without edges (building the graph consults no store), it is
  part of the order the traversal produces, and it is dropped from the returned sequence, which
  holds blueprints of the call only.
\<close>

theorem sortTasks_bare_dependency:
  assumes "t \<in> set tasks"
    and "r \<in> set (dependencyNodes C vars pp t)"
    and "r \<notin> nodeOf C vars pp ` set tasks"
  shows "map_of (dependencyGraph C tasks vars pp) r = Some [] \<and>
         (\<forall>S. sortedPaths n C tasks vars pp = Some S \<longrightarrow>
            r \<in> set S \<and>
            (\<exists>out. sortTasks n C tasks vars pp = Some out \<and> set out \<subseteq> set tasks \<and>
                   r \<notin> nodeOf C vars pp ` set out \<and> length out < length S))"
proof -
  let ?tm = "taskMapOf C tasks vars pp"
  let ?g = "dependencyGraph C tasks vars pp"
  from assms(3) have none: "?tm r = None"
    using taskMapOf_dom[of C tasks vars pp] by (auto simp: dom_def)
  from assms(1,2) have "\<exists>t \<in> set tasks. r \<in> set (targets C vars pp t)"
    by (auto simp: targets_def)
  with graph_bare[OF none] have bare: "map_of ?g r = Some []" by simp
  have rest: "r \<in> set S \<and>
            (\<exists>out. sortTasks n C tasks vars pp = Some out \<and> set out \<subseteq> set tasks \<and>
                   r \<notin> nodeOf C vars pp ` set out \<and> length out < length S)"
    if S: "sortedPaths n C tasks vars pp = Some S" for S
  proof -
    from bare have "r \<in> fst ` set ?g" by (metis map_of_eq_None_iff option.simps(3))
    with sortedPaths_facts(2)[OF S] have rS: "r \<in> set S" by blast
    let ?out = "List.map_filter ?tm S"
    have o: "sortTasks n C tasks vars pp = Some ?out" by (simp add: sortTasks_def S)
    have sub: "set ?out \<subseteq> set tasks"
      by (auto simp: set_map_filter dest: taskMapOf_SomeD)
    with assms(3) have nr: "r \<notin> nodeOf C vars pp ` set ?out" by blast
    have "length ?out = length (filter (\<lambda>q. ?tm q \<noteq> None) S)"
      by (simp add: List.map_filter_def)
    also have "\<dots> < length S" using rS none by (intro length_filter_less) auto
    finally have "length ?out < length S" .
    with rS o sub nr show ?thesis by blast
  qed
  from bare rest show ?thesis by blast
qed

theorem sortTasks_bare_dependency_witness:
  "sortedPaths 4 plainCollaborators bareExample Map.empty None = Some [''b'', ''ext'', ''a''] \<and>
   map_of (dependencyGraph plainCollaborators bareExample Map.empty None) ''ext'' = Some [] \<and>
   (\<exists>out. sortTasks 4 plainCollaborators bareExample Map.empty None = Some out \<and>
          set out \<subseteq> set bareExample \<and>
          ''ext'' \<notin> nodeOf plainCollaborators Map.empty None ` set out \<and> length out < 3)"
proof -
  have t: "blueprint ''a'' [''b'', ''ext''] \<in> set bareExample" by (simp add: bareExample_def)
  have r: "''ext'' \<in> set (dependencyNodes plainCollaborators Map.empty None (blueprint ''a'' [''b'', ''ext'']))"
    by (simp add: dependencyNodes_def blueprint_def resolvePath_def plainCollaborators_def)
  have n: "''ext'' \<notin> nodeOf plainCollaborators Map.empty None ` set bareExample"
    by (simp add: bareExample_def nodeOf_def blueprint_def resolvePath_def plainCollaborators_def)
  have S: "sortedPaths 4 plainCollaborators bareExample Map.empty None = Some [''b'', ''ext'', ''a'']"
    by code_simp
  from sortTasks_bare_dependency[OF t r n, of 4] S show ?thesis by auto
qed



section \<open>Claims about instantiation\<close>

text \<open>
  Claim C2 says that instantiating a single blueprint at \<^verbatim>\<open>x/y/z\<close> with an empty store creates
  generated milestones at \<^verbatim>\<open>x\<close> and at \<^verbatim>\<open>x/y\<close>. The materializer looks up and creates the
  immediate parent only: with the template \<^verbatim>\<open>T\<close> the store ends with tasks at \<^verbatim>\<open>x/y\<close> and
  \<^verbatim>\<open>x/y/z\<close>, and none at \<^verbatim>\<open>x\<close>.
\<close>

theorem parent_created_not_grandparent_counterexample:
  "createdPaths (instantiateTemplate 4 exampleCollaborators emptyManager (request ''T'')) =
     [''x/y'', ''x/y/z''] \<and>
   ''x'' \<notin> set (createdPaths (instantiateTemplate 4 exampleCollaborators emptyManager (request ''T'')))"
proof -
  have "createdPaths (instantiateTemplate 4 exampleCollaborators emptyManager (request ''T'')) =
     [''x/y'', ''x/y/z'']"
    by code_simp
  then show ?thesis by simp
qed

text \<open>
  Claim C2, amended. Instantiating a template with a single blueprint whose normalized path is
  \<^verbatim>\<open>x/y/z\<close>, with an empty store that accepts the two creations and a depth bound above the
  number of graph nodes, creates the generated milestone (metadata \<^verbatim>\<open>autoGenerated: true\<close>) at
  the immediate parent \<^verbatim>\<open>x/y\<close> and then the task at \<^verbatim>\<open>x/y/z\<close>: without a template reference
  the call returns with exactly these two tasks in the store, with a reference it continues as the
  nested call on that store. For two sibling blueprints without references below a missing parent
  the call returns having created the parent once, before the two tasks. Every call that returns
  keeps the generated parents distinct and in the store.
\<close>

theorem missing_parent_created_once:
  "(\<forall>tmpl t vars main.
      templateId opts \<notin> processingTemplates m \<and>
      getTemplate C (templateId opts) = Some tmpl \<and> t_tasks tmpl = [t] \<and>
      vars = applyDefaults (t_variables tmpl) (opt_variables opts) \<and>
      validateRequiredVariables (t_variables tmpl) vars = [] \<and>
      nodeOf C vars (parentPath opts) t = ''x/y/z'' \<and> stored m = [] \<and>
      main = taskInput C t vars (parentPath opts)
               (case templateRefOf C t vars of
                  None \<Rightarrow> transformedMetadata C t vars
                | Some ref \<Rightarrow> map_option (removeTemplateRef C) (transformedMetadata C t vars)) \<and>
      \<not> createRejected C [] (parentInput ''x/y'' ''x/y/z'') \<and>
      \<not> createRejected C [parentInput ''x/y'' ''x/y/z''] main \<and>
      length (dependencyGraph C [t] vars (parentPath opts)) < n \<longrightarrow>
      parentInput ''x/y'' ''x/y/z'' =
        \<lparr> c_path = ''x/y'', c_name = ''y'', c_type = MILESTONE,
          c_description = Some ''Auto-generated parent task for x/y/z'',
          c_metadata = Some [(''autoGenerated'', JBool True), (''childPath'', JStr ''x/y/z'')],
          c_dependencies = None, c_parentPath = None \<rparr> \<and>
      c_path main = ''x/y/z'' \<and>
      (\<exists>m2. stored m2 = [parentInput ''x/y'' ''x/y/z'', main] \<and>
            autoGenerated m2 = autoGenerated m @ [''x/y''] \<and>
            (case templateRefOf C t vars of
               None \<Rightarrow> instantiateTemplate (Suc n) C m opts = Some (Inr (), m2)
             | Some ref \<Rightarrow>
                 instantiateTemplate (Suc n) C m opts =
                   map_option
                     (\<lambda>(r, m'). (r, m'\<lparr>processingTemplates := processingTemplates m' - {templateId opts}\<rparr>))
                     (instantiateTemplate n C m2
                        \<lparr>templateId = template ref, opt_variables = ref_variables ref,
                         parentPath = Some ''x/y/z''\<rparr>)))) \<and>
   (\<forall>tmpl t1 t2 vars q.
      templateId opts \<notin> processingTemplates m \<and>
      getTemplate C (templateId opts) = Some tmpl \<and> t_tasks tmpl = [t1, t2] \<and>
      vars = applyDefaults (t_variables tmpl) (opt_variables opts) \<and>
      validateRequiredVariables (t_variables tmpl) vars = [] \<and>
      templateRefOf C t1 vars = None \<and> templateRefOf C t2 vars = None \<and>
      nodeOf C vars (parentPath opts) t1 \<noteq> nodeOf C vars (parentPath opts) t2 \<and>
      implicitParent (nodeOf C vars (parentPath opts) t1) = Some q \<and>
      implicitParent (nodeOf C vars (parentPath opts) t2) = Some q \<and>
      q \<noteq> [] \<and> q \<notin> c_path ` set (stored m) \<and> accepting C \<and>
      length (dependencyGraph C [t1, t2] vars (parentPath opts)) < n \<longrightarrow>
      (\<exists>a b m'. (a = t1 \<and> b = t2 \<or> a = t2 \<and> b = t1) \<and>
         instantiateTemplate (Suc n) C m opts = Some (Inr (), m') \<and>
         processingTemplates m' = processingTemplates m \<and>
         stored m' = stored m @
           [parentInput q (nodeOf C vars (parentPath opts) a),
            taskInput C a vars (parentPath opts) (transformedMetadata C a vars),
            taskInput C b vars (parentPath opts) (transformedMetadata C b vars)] \<and>
         autoGenerated m' = autoGenerated m @ [q])) \<and>
   (\<forall>k r m'. parents_recorded m \<and> instantiateTemplate k C m opts = Some (r, m') \<longrightarrow>
      parents_recorded m')"
proof (intro conjI)
  have single: "parentInput ''x/y'' ''x/y/z'' =
        \<lparr> c_path = ''x/y'', c_name = ''y'', c_type = MILESTONE,
          c_description = Some ''Auto-generated parent task for x/y/z'',
          c_metadata = Some [(''autoGenerated'', JBool True), (''childPath'', JStr ''x/y/z'')],
          c_dependencies = None, c_parentPath = None \<rparr> \<and>
      c_path main = ''x/y/z'' \<and>
      (\<exists>m2. stored m2 = [parentInput ''x/y'' ''x/y/z'', main] \<and>
            autoGenerated m2 = autoGenerated m @ [''x/y''] \<and>
            (case templateRefOf C t vars of
               None \<Rightarrow> instantiateTemplate (Suc n) C m opts = Some (Inr (), m2)
             | Some ref \<Rightarrow>
                 instantiateTemplate (Suc n) C m opts =
                   map_option
                     (\<lambda>(r, m'). (r, m'\<lparr>processingTemplates := processingTemplates m' - {templateId opts}\<rparr>))
                     (instantiateTemplate n C m2
                        \<lparr>templateId = template ref, opt_variables = ref_variables ref,
                         parentPath = Some ''x/y/z''\<rparr>)))"
    if np: "templateId opts \<notin> processingTemplates m"
      and tm: "getTemplate C (templateId opts) = Some tmpl" and ts: "t_tasks tmpl = [t]"
      and vars: "vars = applyDefaults (t_variables tmpl) (opt_variables opts)"
      and val: "validateRequiredVariables (t_variables tmpl) vars = []"
      and nd: "nodeOf C vars (parentPath opts) t = ''x/y/z''" and st: "stored m = []"
      and main: "main = taskInput C t vars (parentPath opts)
               (case templateRefOf C t vars of
                  None \<Rightarrow> transformedMetadata C t vars
                | Some ref \<Rightarrow> map_option (removeTemplateRef C) (transformedMetadata C t vars))"
      and rp: "\<not> createRejected C [] (parentInput ''x/y'' ''x/y/z'')"
      and rm: "\<not> createRejected C [parentInput ''x/y'' ''x/y/z''] main"
      and fuel: "length (dependencyGraph C [t] vars (parentPath opts)) < n"
    for tmpl t vars main
  proof -
    have "c_path main = ''x/y/z''" using nd unfolding main by (simp add: taskInput_def nodeOf_def)
    with parentInput_xyz single_blueprint_total[OF np tm ts vars val nd st main rp rm fuel]
    show ?thesis by (intro conjI)
  qed
  then show "\<forall>tmpl t vars main.
      templateId opts \<notin> processingTemplates m \<and>
      getTemplate C (templateId opts) = Some tmpl \<and> t_tasks tmpl = [t] \<and>
      vars = applyDefaults (t_variables tmpl) (opt_variables opts) \<and>
      validateRequiredVariables (t_variables tmpl) vars = [] \<and>
      nodeOf C vars (parentPath opts) t = ''x/y/z'' \<and> stored m = [] \<and>
      main = taskInput C t vars (parentPath opts)
               (case templateRefOf C t vars of
                  None \<Rightarrow> transformedMetadata C t vars
                | Some ref \<Rightarrow> map_option (removeTemplateRef C) (transformedMetadata C t vars)) \<and>
      \<not> createRejected C [] (parentInput ''x/y'' ''x/y/z'') \<and>
      \<not> createRejected C [parentInput ''x/y'' ''x/y/z''] main \<and>
      length (dependencyGraph C [t] vars (parentPath opts)) < n \<longrightarrow>
      parentInput ''x/y'' ''x/y/z'' =
        \<lparr> c_path = ''x/y'', c_name = ''y'', c_type = MILESTONE,
          c_description = Some ''Auto-generated parent task for x/y/z'',
          c_metadata = Some [(''autoGenerated'', JBool True), (''childPath'', JStr ''x/y/z'')],
          c_dependencies = None, c_parentPath = None \<rparr> \<and>
      c_path main = ''x/y/z'' \<and>
      (\<exists>m2. stored m2 = [parentInput ''x/y'' ''x/y/z'', main] \<and>
            autoGenerated m2 = autoGenerated m @ [''x/y''] \<and>
            (case templateRefOf C t vars of
               None \<Rightarrow> instantiateTemplate (Suc n) C m opts = Some (Inr (), m2)
             | Some ref \<Rightarrow>
                 instantiateTemplate (Suc n) C m opts =
                   map_option
                     (\<lambda>(r, m'). (r, m'\<lparr>processingTemplates := processingTemplates m' - {templateId opts}\<rparr>))
                     (instantiateTemplate n C m2
                        \<lparr>templateId = template ref, opt_variables = ref_variables ref,
                         parentPath = Some ''x/y/z''\<rparr>)))"
    by (intro allI impI) (elim conjE)
next
  show "\<forall>tmpl t1 t2 vars q.
      templateId opts \<notin> processingTemplates m \<and>
      getTemplate C (templateId opts) = Some tmpl \<and> t_tasks tmpl = [t1, t2] \<and>
      vars = applyDefaults (t_variables tmpl) (opt_variables opts) \<and>
      validateRequiredVariables (t_variables tmpl) vars = [] \<and>
      templateRefOf C t1 vars = None \<and> templateRefOf C t2 vars = None \<and>
      nodeOf C vars (parentPath opts) t1 \<noteq> nodeOf C vars (parentPath opts) t2 \<and>
      implicitParent (nodeOf C vars (parentPath opts) t1) = Some q \<and>
      implicitParent (nodeOf C vars (parentPath opts) t2) = Some q \<and>
      q \<noteq> [] \<and> q \<notin> c_path ` set (stored m) \<and> accepting C \<and>
      length (dependencyGraph C [t1, t2] vars (parentPath opts)) < n \<longrightarrow>
      (\<exists>a b m'. (a = t1 \<and> b = t2 \<or> a = t2 \<and> b = t1) \<and>
         instantiateTemplate (Suc n) C m opts = Some (Inr (), m') \<and>
         processingTemplates m' = processingTemplates m \<and>
         stored m' = stored m @
           [parentInput q (nodeOf C vars (parentPath opts) a),
            taskInput C a vars (parentPath opts) (transformedMetadata C a vars),
            taskInput C b vars (parentPath opts) (transformedMetadata C b vars)] \<and>
         autoGenerated m' = autoGenerated m @ [q])"
    using siblings_total[of opts m C _ _ _ _ _ n] by (intro allI impI) (elim conjE)
next
  show "\<forall>k r m'. parents_recorded m \<and> instantiateTemplate k C m opts = Some (r, m') \<longrightarrow>
      parents_recorded m'"
    using run_recorded by blast
qed

theorem missing_parent_created_once_witness:
  "(\<exists>m2. instantiateTemplate (Suc 3) exampleCollaborators emptyManager (request ''T'') =
            Some (Inr (), m2) \<and>
          stored m2 = [xyParent ''x/y/z'', xyChild ''x/y/z''] \<and> autoGenerated m2 = [''x/y'']) \<and>
   (\<exists>m'. instantiateTemplate (Suc 4) exampleCollaborators emptyManager (request ''S'') =
            Some (Inr (), m') \<and>
          (stored m' = [xyParent ''x/y/a'', xyChild ''x/y/a'', xyChild ''x/y/b''] \<or>
           stored m' = [xyParent ''x/y/b'', xyChild ''x/y/b'', xyChild ''x/y/a'']) \<and>
          autoGenerated m' = [''x/y'']) \<and>
   parents_recorded emptyManager \<and> parents_recorded singleResult"
proof -
  let ?C = exampleCollaborators
  let ?T = "\<lparr>t_id = ''T'', t_variables = [], t_tasks = [blueprint ''x/y/z'' []]\<rparr>"
  let ?S = "\<lparr>t_id = ''S'', t_variables = [],
              t_tasks = [blueprint ''x/y/a'' [], blueprint ''x/y/b'' []]\<rparr>"
  have h1: "templateId (request ''T'') \<notin> processingTemplates emptyManager \<and>
      getTemplate ?C (templateId (request ''T'')) = Some ?T \<and> t_tasks ?T = [blueprint ''x/y/z'' []] \<and>
      Map.empty = applyDefaults (t_variables ?T) (opt_variables (request ''T'')) \<and>
      validateRequiredVariables (t_variables ?T) Map.empty = [] \<and>
      nodeOf ?C Map.empty (parentPath (request ''T'')) (blueprint ''x/y/z'' []) = ''x/y/z'' \<and>
      stored emptyManager = [] \<and>
      xyChild ''x/y/z'' = taskInput ?C (blueprint ''x/y/z'' []) Map.empty (parentPath (request ''T''))
               (case templateRefOf ?C (blueprint ''x/y/z'' []) Map.empty of
                  None \<Rightarrow> transformedMetadata ?C (blueprint ''x/y/z'' []) Map.empty
                | Some ref \<Rightarrow> map_option (removeTemplateRef ?C)
                                (transformedMetadata ?C (blueprint ''x/y/z'' []) Map.empty)) \<and>
      \<not> createRejected ?C [] (parentInput ''x/y'' ''x/y/z'') \<and>
      \<not> createRejected ?C [parentInput ''x/y'' ''x/y/z''] (xyChild ''x/y/z'') \<and>
      length (dependencyGraph ?C [blueprint ''x/y/z'' []] Map.empty (parentPath (request ''T''))) < 3"
    by (simp add: request_def emptyManager_def example_templates example_plain example_children
        example_nodes example_graphs example_rejects validateRequiredVariables_def)
  note single = missing_parent_created_once[of "request ''T''" emptyManager ?C 3,
      THEN conjunct1, THEN spec, THEN spec, THEN spec, THEN spec, THEN mp, OF h1]
  from single obtain m2 where
    s2: "stored m2 = [parentInput ''x/y'' ''x/y/z'', xyChild ''x/y/z'']" and
    a2: "autoGenerated m2 = autoGenerated emptyManager @ [''x/y'']" and
    r2: "(case templateRefOf ?C (blueprint ''x/y/z'' []) Map.empty of
               None \<Rightarrow> instantiateTemplate (Suc 3) ?C emptyManager (request ''T'') = Some (Inr (), m2)
             | Some ref \<Rightarrow>
                 instantiateTemplate (Suc 3) ?C emptyManager (request ''T'') =
                   map_option
                     (\<lambda>(r, m'). (r, m'\<lparr>processingTemplates := processingTemplates m' - {templateId (request ''T'')}\<rparr>))
                     (instantiateTemplate 3 ?C m2
                        \<lparr>templateId = template ref, opt_variables = ref_variables ref,
                         parentPath = Some ''x/y/z''\<rparr>))"
    by (elim conjE exE)
  from r2 have r2': "instantiateTemplate (Suc 3) ?C emptyManager (request ''T'') = Some (Inr (), m2)"
    by (simp add: example_plain)
  have one: "\<exists>m2. instantiateTemplate (Suc 3) ?C emptyManager (request ''T'') = Some (Inr (), m2) \<and>
          stored m2 = [xyParent ''x/y/z'', xyChild ''x/y/z''] \<and> autoGenerated m2 = [''x/y'']"
    using r2' s2 a2 by (intro exI[of _ m2]) (simp add: example_parents emptyManager_def)
  have h2: "templateId (request ''S'') \<notin> processingTemplates emptyManager \<and>
      getTemplate ?C (templateId (request ''S'')) = Some ?S \<and>
      t_tasks ?S = [blueprint ''x/y/a'' [], blueprint ''x/y/b'' []] \<and>
      Map.empty = applyDefaults (t_variables ?S) (opt_variables (request ''S'')) \<and>
      validateRequiredVariables (t_variables ?S) Map.empty = [] \<and>
      templateRefOf ?C (blueprint ''x/y/a'' []) Map.empty = None \<and>
      templateRefOf ?C (blueprint ''x/y/b'' []) Map.empty = None \<and>
      nodeOf ?C Map.empty (parentPath (request ''S'')) (blueprint ''x/y/a'' []) \<noteq>
        nodeOf ?C Map.empty (parentPath (request ''S'')) (blueprint ''x/y/b'' []) \<and>
      implicitParent (nodeOf ?C Map.empty (parentPath (request ''S'')) (blueprint ''x/y/a'' [])) = Some ''x/y'' \<and>
      implicitParent (nodeOf ?C Map.empty (parentPath (request ''S'')) (blueprint ''x/y/b'' [])) = Some ''x/y'' \<and>
      ''x/y'' \<noteq> [] \<and> ''x/y'' \<notin> c_path ` set (stored emptyManager) \<and> accepting ?C \<and>
      length (dependencyGraph ?C [blueprint ''x/y/a'' [], blueprint ''x/y/b'' []] Map.empty
                (parentPath (request ''S''))) < 4"
    by (simp add: request_def emptyManager_def example_templates example_plain
        example_nodes example_graphs example_accepting validateRequiredVariables_def)
  note pair = missing_parent_created_once[of "request ''S''" emptyManager ?C 4,
      THEN conjunct2, THEN conjunct1, THEN spec, THEN spec, THEN spec, THEN spec, THEN spec,
      THEN mp, OF h2]
  from pair obtain a b m' where
    ab: "a = blueprint ''x/y/a'' [] \<and> b = blueprint ''x/y/b'' [] \<or>
         a = blueprint ''x/y/b'' [] \<and> b = blueprint ''x/y/a'' []" and
    run: "instantiateTemplate (Suc 4) ?C emptyManager (request ''S'') = Some (Inr (), m')" and
    st: "stored m' = stored emptyManager @
           [parentInput ''x/y'' (nodeOf ?C Map.empty (parentPath (request ''S'')) a),
            taskInput ?C a Map.empty (parentPath (request ''S'')) (transformedMetadata ?C a Map.empty),
            taskInput ?C b Map.empty (parentPath (request ''S'')) (transformedMetadata ?C b Map.empty)]" and
    au: "autoGenerated m' = autoGenerated emptyManager @ [''x/y'']"
    by (elim conjE exE)
  have pp: "parentPath (request ''S'') = None" by (simp add: request_def)
  from ab have "stored m' = [xyParent ''x/y/a'', xyChild ''x/y/a'', xyChild ''x/y/b''] \<or>
           stored m' = [xyParent ''x/y/b'', xyChild ''x/y/b'', xyChild ''x/y/a'']"
  proof (elim disjE conjE)
    assume "a = blueprint ''x/y/a'' []" "b = blueprint ''x/y/b'' []"
    with st show ?thesis
      by (simp add: pp emptyManager_def example_nodes example_children example_parents)
  next
    assume "a = blueprint ''x/y/b'' []" "b = blueprint ''x/y/a'' []"
    with st show ?thesis
      by (simp add: pp emptyManager_def example_nodes example_children example_parents)
  qed
  with run au have two: "\<exists>m'. instantiateTemplate (Suc 4) ?C emptyManager (request ''S'') =
            Some (Inr (), m') \<and>
          (stored m' = [xyParent ''x/y/a'', xyChild ''x/y/a'', xyChild ''x/y/b''] \<or>
           stored m' = [xyParent ''x/y/b'', xyChild ''x/y/b'', xyChild ''x/y/a'']) \<and>
          autoGenerated m' = [''x/y'']"
    by (intro exI[of _ m']) (simp add: emptyManager_def)
  have inv: "parents_recorded emptyManager" by (simp add: parents_recorded_def emptyManager_def)
  have "parents_recorded singleResult"
    using missing_parent_created_once[of "request ''T''" emptyManager ?C 3,
      THEN conjunct2, THEN conjunct2, THEN spec, THEN spec, THEN spec, THEN mp,
      OF conjI[OF inv single_run]] .
  with one two inv show ?thesis by (intro conjI)
qed

text \<open>
  Claim C4. A call of \<^verbatim>\<open>instantiateTemplate\<close> whose template id is in \<^verbatim>\<open>processingTemplates\<close> fails
  with the circular-reference error. Otherwise the id is inserted for the body of the call and
  removed from whatever the body returns, a result or an error; the set after the call is the
  set before it and does not contain the id.
\<close>

theorem reentrancy_guard_released:
  "(templateId opts \<in> processingTemplates m \<longrightarrow>
      instantiateTemplate (Suc n) C m opts =
        Some (Inl (CircularTemplateReference (templateId opts)), m)) \<and>
   (templateId opts \<notin> processingTemplates m \<longrightarrow>
      instantiateTemplate (Suc n) C m opts =
        map_option
          (\<lambda>(r, m'). (r, m'\<lparr>processingTemplates := processingTemplates m' - {templateId opts}\<rparr>))
          (instantiateBody n C
             (m\<lparr>processingTemplates := insert (templateId opts) (processingTemplates m)\<rparr>) opts) \<and>
      (\<forall>k r m'. instantiateTemplate k C m opts = Some (r, m') \<longrightarrow>
         templateId opts \<notin> processingTemplates m' \<and>
         processingTemplates m' = processingTemplates m))"
proof (intro conjI impI allI)
  assume "templateId opts \<in> processingTemplates m"
  then show "instantiateTemplate (Suc n) C m opts =
        Some (Inl (CircularTemplateReference (templateId opts)), m)" by simp
next
  assume "templateId opts \<notin> processingTemplates m"
  then show "instantiateTemplate (Suc n) C m opts =
        map_option
          (\<lambda>(r, m'). (r, m'\<lparr>processingTemplates := processingTemplates m' - {templateId opts}\<rparr>))
          (instantiateBody n C
             (m\<lparr>processingTemplates := insert (templateId opts) (processingTemplates m)\<rparr>) opts)"
    by (simp split: option.splits)
next
  fix k r m'
  assume a: "templateId opts \<notin> processingTemplates m"
    and b: "instantiateTemplate k C m opts = Some (r, m')"
  from processing_preserved(1)[OF b] a show "templateId opts \<notin> processingTemplates m'" by simp
next
  fix k r m'
  assume "instantiateTemplate k C m opts = Some (r, m')"
  then show "processingTemplates m' = processingTemplates m" by (rule processing_preserved(1))
qed

theorem reentrancy_guard_released_witness:
  "instantiateTemplate 4 exampleCollaborators emptyManager (request ''T1'') =
     Some (Inl (CircularTemplateReference ''T1''), inFlight\<lparr>processingTemplates := {}\<rparr>) \<and>
   ''T1'' \<notin> processingTemplates (inFlight\<lparr>processingTemplates := {}\<rparr>) \<and>
   processingTemplates (inFlight\<lparr>processingTemplates := {}\<rparr>) = processingTemplates emptyManager \<and>
   instantiateTemplate (Suc 0) exampleCollaborators inFlight (request ''T1'') =
     Some (Inl (CircularTemplateReference ''T1''), inFlight)"
proof -
  have a: "templateId (request ''T1'') \<notin> processingTemplates emptyManager"
    by (simp add: request_def emptyManager_def)
  have b: "templateId (request ''T1'') \<in> processingTemplates inFlight"
    by (simp add: request_def inFlight_def)
  from reentrancy_guard_released[of "request ''T1''" emptyManager 0 exampleCollaborators] a
    selfReference_run
  have "templateId (request ''T1'') \<notin> processingTemplates (inFlight\<lparr>processingTemplates := {}\<rparr>) \<and>
        processingTemplates (inFlight\<lparr>processingTemplates := {}\<rparr>) = processingTemplates emptyManager"
    by blast
  moreover from reentrancy_guard_released[of "request ''T1''" inFlight 0 exampleCollaborators] b
  have "instantiateTemplate (Suc 0) exampleCollaborators inFlight (request ''T1'') =
     Some (Inl (CircularTemplateReference (templateId (request ''T1''))), inFlight)"
    by blast
  ultimately show ?thesis using selfReference_run by (simp add: request_def)
qed

text \<open>
  Claim C5. When some declared required variable is absent from the resolved context, the call
  fails with the list of the missing names; the template was looked up, and the store was neither
  asked nor changed.
\<close>

theorem missing_variables_create_nothing:
  assumes "templateId opts \<notin> processingTemplates m"
    and "getTemplate C (templateId opts) = Some tmpl"
    and "ctx = applyDefaults (t_variables tmpl) (opt_variables opts)"
    and "missing = map name (filter (\<lambda>v. required v \<and> ctx (name v) = None) (t_variables tmpl))"
    and "missing \<noteq> []"
  shows "instantiateTemplate (Suc n) C m opts =
           Some (Inl (MissingVariables missing),
                 m\<lparr>calls := calls m @ [GetTemplate (templateId opts)]\<rparr>)"
proof -
  let ?m0 = "m\<lparr>processingTemplates := insert (templateId opts) (processingTemplates m)\<rparr>"
  have v: "validateRequiredVariables (t_variables tmpl) ctx = missing"
    using assms(4) by (simp add: validateRequiredVariables_def)
  have "instantiateBody n C ?m0 opts =
          Some (Inl (MissingVariables missing), ?m0\<lparr>calls := calls ?m0 @ [GetTemplate (templateId opts)]\<rparr>)"
    using assms(2,5) v unfolding assms(3) by (simp add: Let_def)
  moreover have "insert (templateId opts) (processingTemplates m) - {templateId opts} = processingTemplates m"
    using assms(1) by auto
  ultimately show ?thesis using assms(1) by simp
qed

theorem missing_variables_create_nothing_witness:
  "instantiateTemplate (Suc 3) exampleCollaborators emptyManager (request ''R'') =
     Some (Inl (MissingVariables [''y'']), emptyManager\<lparr>calls := [GetTemplate ''R'']\<rparr>)"
proof -
  let ?tmpl = "\<lparr>t_id = ''R'',
              t_variables = [\<lparr>name = ''y'', required = True, default_value = None\<rparr>],
              t_tasks = [blueprint ''x'' []]\<rparr>"
  have a: "templateId (request ''R'') \<notin> processingTemplates emptyManager"
    by (simp add: request_def emptyManager_def)
  have b: "getTemplate exampleCollaborators (templateId (request ''R'')) = Some ?tmpl"
    by (simp add: exampleCollaborators_def exampleTemplates_def request_def)
  have c: "[''y''] = map name (filter (\<lambda>v. required v \<and>
              applyDefaults (t_variables ?tmpl) (opt_variables (request ''R'')) (name v) = None)
              (t_variables ?tmpl))"
    by (simp add: request_def)
  from missing_variables_create_nothing[OF a b refl c, of 3]
  show ?thesis by (simp add: request_def emptyManager_def)
qed

text \<open>
  Claim C6 says that the resolved context maps every declared variable that was not supplied and
  has a default to that default. The code tests \<^verbatim>\<open>v.name in variables\<close>, which also holds for
  the names a plain object inherits: a declared variable named \<^verbatim>\<open>constructor\<close> with the default 5
  and no supplied value gets no entry in the context, where a variable named \<^verbatim>\<open>x\<close> gets its
  default.
\<close>

theorem inherited_name_gets_no_default:
  "applyDefaults [\<lparr>name = ''constructor'', required = False, default_value = Some (JNum 5)\<rparr>]
     Map.empty ''constructor'' = None \<and>
   applyDefaults [\<lparr>name = ''x'', required = False, default_value = Some (JNum 5)\<rparr>]
     Map.empty ''x'' = Some (JNum 5)"
  by (simp add: inOperator_def objectPrototypeKeys_def)

text \<open>
  Claim C7. For a blueprint whose transformed metadata contains a template reference, the
  materializer, once the parent is ensured, creates the task with the reference removed from its
  metadata (type \<^verbatim>\<open>TASK\<close> for the blueprint type \<^verbatim>\<open>TASK\<close>, milestone for any other, with the
  normalized dependencies and the derived parent path) and then is the call of
  \<^verbatim>\<open>instantiateTemplate\<close> with the template id and the variables of the reference and the
  normalized path of the task as parent path. Every nested call that succeeds has created, for
  each blueprint of the nested template, a task at the blueprint's path joined to the path of the
  task; and the nested call does succeed when the nested template is found, is not being
  processed, misses no variable and has no reference of its own, the store accepts, and the depth
  bound is above the number of graph nodes.
\<close>

theorem nested_template_mounted:
  assumes "templateRefOf C task vars = Some ref"
    and "np = resolvePath C pp vars (path task)"
    and "nested = \<lparr>templateId = template ref, opt_variables = ref_variables ref, parentPath = Some np\<rparr>"
  shows "\<exists>md.
           transformedMetadata C task vars = Some md \<and> extractTemplateRef C md = Some ref \<and>
           (let input =
                  \<lparr> c_path = np,
                    c_name = interpolateString C (title task) vars,
                    c_type = (if ttype task = ''TASK'' then TASK else MILESTONE),
                    c_description =
                      (case description task of
                         None \<Rightarrow> None
                       | Some d \<Rightarrow> if d \<noteq> [] then Some (interpolateString C d vars) else None),
                    c_metadata = Some (removeTemplateRef C md),
                    c_dependencies = map_option (map (resolvePath C pp vars)) (dependencies task),
                    c_parentPath = implicitParent np \<rparr>
            in processTemplateTask n C m task vars pp =
                 (case ensureParent C m np of
                    (Inl e, m1) \<Rightarrow> Some (Inl e, m1)
                  | (Inr u, m1) \<Rightarrow>
                      if createRejected C (stored m1) input
                      then Some (Inl (TaskCreationFailed np), m1\<lparr>calls := calls m1 @ [CreateTask input]\<rparr>)
                      else instantiateTemplate n C
                             (m1\<lparr>stored := stored m1 @ [input], calls := calls m1 @ [CreateTask input]\<rparr>)
                             nested)) \<and>
           (\<forall>m2 tmpl2 vars2 m'.
              np \<noteq> [] \<and> getTemplate C (template ref) = Some tmpl2 \<and>
              vars2 = applyDefaults (t_variables tmpl2) (ref_variables ref) \<and>
              instantiateTemplate n C m2 nested = Some (Inr (), m') \<longrightarrow>
              (\<exists>xs. stored m' = stored m2 @ xs \<and>
                    (\<forall>t2 \<in> set (t_tasks tmpl2).
                       normalizePath C (joinPath C np (interpolateString C (path t2) vars2))
                         \<in> c_path ` set xs))) \<and>
           (\<forall>m2 tmpl2 vars2 k.
              n = Suc k \<and> template ref \<notin> processingTemplates m2 \<and>
              getTemplate C (template ref) = Some tmpl2 \<and>
              vars2 = applyDefaults (t_variables tmpl2) (ref_variables ref) \<and>
              validateRequiredVariables (t_variables tmpl2) vars2 = [] \<and>
              (\<forall>t2 \<in> set (t_tasks tmpl2). templateRefOf C t2 vars2 = None) \<and> accepting C \<and>
              length (dependencyGraph C (t_tasks tmpl2) vars2 (Some np)) < k \<longrightarrow>
              (\<exists>m'. instantiateTemplate n C m2 nested = Some (Inr (), m')))"
proof -
  from assms(1) obtain md where md: "transformedMetadata C task vars = Some md"
    and ex: "extractTemplateRef C md = Some ref"
    by (auto simp: templateRefOf_def split: option.splits)
  let ?rec = "\<lparr> c_path = np,
                    c_name = interpolateString C (title task) vars,
                    c_type = (if ttype task = ''TASK'' then TASK else MILESTONE),
                    c_description =
                      (case description task of
                         None \<Rightarrow> None
                       | Some d \<Rightarrow> if d \<noteq> [] then Some (interpolateString C d vars) else None),
                    c_metadata = Some (removeTemplateRef C md),
                    c_dependencies = map_option (map (resolvePath C pp vars)) (dependencies task),
                    c_parentPath = implicitParent np \<rparr>"
  have inp: "taskInput C task vars pp (map_option (removeTemplateRef C) (transformedMetadata C task vars)) = ?rec"
    by (simp add: taskInput_def md assms(2))
  have cp: "c_path ?rec = np" by simp
  have eq: "processTemplateTask n C m task vars pp =
                 (case ensureParent C m np of
                    (Inl e, m1) \<Rightarrow> Some (Inl e, m1)
                  | (Inr u, m1) \<Rightarrow>
                      if createRejected C (stored m1) ?rec
                      then Some (Inl (TaskCreationFailed np), m1\<lparr>calls := calls m1 @ [CreateTask ?rec]\<rparr>)
                      else instantiateTemplate n C
                             (m1\<lparr>stored := stored m1 @ [?rec], calls := calls m1 @ [CreateTask ?rec]\<rparr>)
                             nested)"
  proof -
    obtain r1 m1 where e: "ensureParent C m np = (r1, m1)" by (cases "ensureParent C m np")
    show ?thesis
    proof (cases r1)
      case (Inl err)
      with e show ?thesis by (simp add: Let_def assms(2)[symmetric])
    next
      case (Inr u)
      with e assms(1) inp show ?thesis
        unfolding processTemplateTask.simps Let_def assms(2)[symmetric] assms(3)
        by (simp add: createTask_def cp del: processTemplateTask.simps)
    qed
  qed
  have sel: "templateId nested = template ref" "opt_variables nested = ref_variables ref"
    "parentPath nested = Some np" by (simp_all add: assms(3))
  have rooted: "\<exists>xs. stored m' = stored m2 @ xs \<and>
                    (\<forall>t2 \<in> set (t_tasks tmpl2).
                       normalizePath C (joinPath C np (interpolateString C (path t2) vars2))
                         \<in> c_path ` set xs)"
    if ne: "np \<noteq> []" and g0: "getTemplate C (template ref) = Some tmpl2"
      and v0: "vars2 = applyDefaults (t_variables tmpl2) (ref_variables ref)"
      and run: "instantiateTemplate n C m2 nested = Some (Inr (), m')" for m2 tmpl2 vars2 m'
  proof -
    from g0 have g: "getTemplate C (templateId nested) = Some tmpl2" unfolding sel .
    from v0 have v: "vars2 = applyDefaults (t_variables tmpl2) (opt_variables nested)" unfolding sel .
    from instantiate_creates[OF run g v] obtain xs where
      xs: "stored m' = stored m2 @ xs"
      "nodeOf C vars2 (parentPath nested) ` set (t_tasks tmpl2) \<subseteq> c_path ` set xs" by blast
    have "nodeOf C vars2 (parentPath nested) t2 =
            normalizePath C (joinPath C np (interpolateString C (path t2) vars2))" for t2
      using ne by (simp add: nodeOf_def resolvePath_def sel)
    with xs show ?thesis by (metis image_subset_iff)
  qed
  have total: "\<exists>m'. instantiateTemplate n C m2 nested = Some (Inr (), m')"
    if n: "n = Suc k" and a0: "template ref \<notin> processingTemplates m2"
      and b0: "getTemplate C (template ref) = Some tmpl2"
      and c0: "vars2 = applyDefaults (t_variables tmpl2) (ref_variables ref)"
      and d: "validateRequiredVariables (t_variables tmpl2) vars2 = []"
      and e: "\<forall>t2 \<in> set (t_tasks tmpl2). templateRefOf C t2 vars2 = None"
      and f: "accepting C"
      and g0: "length (dependencyGraph C (t_tasks tmpl2) vars2 (Some np)) < k" for m2 tmpl2 vars2 k
  proof -
    from a0 have a: "templateId nested \<notin> processingTemplates m2" unfolding sel .
    from b0 have b: "getTemplate C (templateId nested) = Some tmpl2" unfolding sel .
    from c0 have c: "vars2 = applyDefaults (t_variables tmpl2) (opt_variables nested)" unfolding sel .
    from g0 have g: "length (dependencyGraph C (t_tasks tmpl2) vars2 (parentPath nested)) < k"
      unfolding sel .
    from instantiate_plain_total[OF a b c d e f g] show ?thesis unfolding n .
  qed
  have rooted': "\<forall>m2 tmpl2 vars2 m'.
              np \<noteq> [] \<and> getTemplate C (template ref) = Some tmpl2 \<and>
              vars2 = applyDefaults (t_variables tmpl2) (ref_variables ref) \<and>
              instantiateTemplate n C m2 nested = Some (Inr (), m') \<longrightarrow>
              (\<exists>xs. stored m' = stored m2 @ xs \<and>
                    (\<forall>t2 \<in> set (t_tasks tmpl2).
                       normalizePath C (joinPath C np (interpolateString C (path t2) vars2))
                         \<in> c_path ` set xs))"
    using rooted by (intro allI impI) (elim conjE)
  have total': "\<forall>m2 tmpl2 vars2 k.
              n = Suc k \<and> template ref \<notin> processingTemplates m2 \<and>
              getTemplate C (template ref) = Some tmpl2 \<and>
              vars2 = applyDefaults (t_variables tmpl2) (ref_variables ref) \<and>
              validateRequiredVariables (t_variables tmpl2) vars2 = [] \<and>
              (\<forall>t2 \<in> set (t_tasks tmpl2). templateRefOf C t2 vars2 = None) \<and> accepting C \<and>
              length (dependencyGraph C (t_tasks tmpl2) vars2 (Some np)) < k \<longrightarrow>
              (\<exists>m'. instantiateTemplate n C m2 nested = Some (Inr (), m'))"
    using total by (intro allI impI) (elim conjE)
  from md ex eq rooted' total' show ?thesis unfolding Let_def by blast
qed

theorem nested_template_mounted_witness:
  "templateRefOf exampleCollaborators groupBlueprint Map.empty =
     Some \<lparr>template = ''N2'', ref_variables = Map.empty\<rparr> \<and>
   processTemplateTask 4 exampleCollaborators emptyManager groupBlueprint Map.empty None =
     Some (Inr (), mounted) \<and>
   stored mounted = [groupTask, leafTask] \<and>
   (\<exists>xs. stored mounted = stored mountedBefore @ xs \<and> ''mount/leaf'' \<in> c_path ` set xs) \<and>
   (\<exists>m'. instantiateTemplate 4 exampleCollaborators mountedBefore nestedRequest = Some (Inr (), m'))"
proof -
  let ?C = exampleCollaborators
  let ?ref = "\<lparr>template = ''N2'', ref_variables = Map.empty\<rparr>"
  let ?leaf = "\<lparr>t_id = ''N2'', t_variables = [], t_tasks = [blueprint ''leaf'' []]\<rparr>"
  have np: "''mount'' = resolvePath ?C None Map.empty (path groupBlueprint)"
    by (simp add: resolvePath_def groupBlueprint_def blueprint_def exampleCollaborators_def
        plainCollaborators_def)
  have nr: "nestedRequest =
      \<lparr>templateId = template ?ref, opt_variables = ref_variables ?ref, parentPath = Some ''mount''\<rparr>"
    by (simp add: nestedRequest_def)
  from nested_template_mounted[OF groupBlueprint_ref np nr, of 4 emptyManager]
  obtain md0 where
    m: "transformedMetadata ?C groupBlueprint Map.empty = Some md0" and
    eq: "let input =
                  \<lparr> c_path = ''mount'',
                    c_name = interpolateString ?C (title groupBlueprint) Map.empty,
                    c_type = (if ttype groupBlueprint = ''TASK'' then TASK else MILESTONE),
                    c_description =
                      (case description groupBlueprint of
                         None \<Rightarrow> None
                       | Some d \<Rightarrow> if d \<noteq> [] then Some (interpolateString ?C d Map.empty) else None),
                    c_metadata = Some (removeTemplateRef ?C md0),
                    c_dependencies = map_option (map (resolvePath ?C None Map.empty)) (dependencies groupBlueprint),
                    c_parentPath = implicitParent ''mount'' \<rparr>
            in processTemplateTask 4 ?C emptyManager groupBlueprint Map.empty None =
                 (case ensureParent ?C emptyManager ''mount'' of
                    (Inl e, m1) \<Rightarrow> Some (Inl e, m1)
                  | (Inr u, m1) \<Rightarrow>
                      if createRejected ?C (stored m1) input
                      then Some (Inl (TaskCreationFailed ''mount''), m1\<lparr>calls := calls m1 @ [CreateTask input]\<rparr>)
                      else instantiateTemplate 4 ?C
                             (m1\<lparr>stored := stored m1 @ [input], calls := calls m1 @ [CreateTask input]\<rparr>)
                             nestedRequest)" and
    rooted: "\<forall>m2 tmpl2 vars2 m'.
              ''mount'' \<noteq> [] \<and> getTemplate ?C (template ?ref) = Some tmpl2 \<and>
              vars2 = applyDefaults (t_variables tmpl2) (ref_variables ?ref) \<and>
              instantiateTemplate 4 ?C m2 nestedRequest = Some (Inr (), m') \<longrightarrow>
              (\<exists>xs. stored m' = stored m2 @ xs \<and>
                    (\<forall>t2 \<in> set (t_tasks tmpl2).
                       normalizePath ?C (joinPath ?C ''mount'' (interpolateString ?C (path t2) vars2))
                         \<in> c_path ` set xs))" and
    total: "\<forall>m2 tmpl2 vars2 k.
              4 = Suc k \<and> template ?ref \<notin> processingTemplates m2 \<and>
              getTemplate ?C (template ?ref) = Some tmpl2 \<and>
              vars2 = applyDefaults (t_variables tmpl2) (ref_variables ?ref) \<and>
              validateRequiredVariables (t_variables tmpl2) vars2 = [] \<and>
              (\<forall>t2 \<in> set (t_tasks tmpl2). templateRefOf ?C t2 vars2 = None) \<and> accepting ?C \<and>
              length (dependencyGraph ?C (t_tasks tmpl2) vars2 (Some ''mount'')) < k \<longrightarrow>
              (\<exists>m'. instantiateTemplate 4 ?C m2 nestedRequest = Some (Inr (), m'))"
    by blast
  have md: "transformedMetadata ?C groupBlueprint Map.empty =
              Some [(''templateRef'', JStr ''N2''), (''owner'', JStr ''ops'')]"
    by (simp add: transformedMetadata_def groupBlueprint_def blueprint_def
      exampleCollaborators_def plainCollaborators_def)
  with m have md0: "md0 = [(''templateRef'', JStr ''N2''), (''owner'', JStr ''ops'')]" by simp
  have rj: "\<And>ts i. \<not> createRejected ?C ts i"
    by (simp add: exampleCollaborators_def plainCollaborators_def)
  have inp: "\<lparr> c_path = ''mount'',
                c_name = interpolateString ?C (title groupBlueprint) Map.empty,
                c_type = (if ttype groupBlueprint = ''TASK'' then TASK else MILESTONE),
                c_description =
                  (case description groupBlueprint of
                     None \<Rightarrow> None
                   | Some d \<Rightarrow> if d \<noteq> [] then Some (interpolateString ?C d Map.empty) else None),
                c_metadata = Some (removeTemplateRef ?C
                                     [(''templateRef'', JStr ''N2''), (''owner'', JStr ''ops'')]),
                c_dependencies = map_option (map (resolvePath ?C None Map.empty))
                                   (dependencies groupBlueprint),
                c_parentPath = implicitParent ''mount'' \<rparr> = groupTask"
    by code_simp
  have before: "emptyManager\<lparr>stored := stored emptyManager @ [groupTask],
                  calls := calls emptyManager @ [CreateTask groupTask]\<rparr> = mountedBefore"
    by (simp add: emptyManager_def mountedBefore_def)
  from eq have run: "processTemplateTask 4 ?C emptyManager groupBlueprint Map.empty None =
     Some (Inr (), mounted)"
    unfolding Let_def md0 inp group_parent by (simp add: rj before nested_run)
  have g: "getTemplate ?C (template ?ref) = Some ?leaf"
    by (simp add: exampleCollaborators_def exampleTemplates_def)
  have v: "Map.empty = applyDefaults (t_variables ?leaf) (ref_variables ?ref)" by simp
  have leafnode: "normalizePath ?C (joinPath ?C ''mount'' (interpolateString ?C (path (blueprint ''leaf'' [])) Map.empty))
                   = ''mount/leaf''"
    by (simp add: exampleCollaborators_def plainCollaborators_def blueprint_def)
  from rooted g v nested_run obtain xs where
    "stored mounted = stored mountedBefore @ xs"
    "\<forall>t2 \<in> set (t_tasks ?leaf).
       normalizePath ?C (joinPath ?C ''mount'' (interpolateString ?C (path t2) Map.empty)) \<in> c_path ` set xs"
    by (metis list.discI)
  with leafnode have r: "\<exists>xs. stored mounted = stored mountedBefore @ xs \<and> ''mount/leaf'' \<in> c_path ` set xs"
    by auto
  have t1: "(4::nat) = Suc 3" by simp
  have t2: "template ?ref \<notin> processingTemplates mountedBefore" by (simp add: mountedBefore_def)
  have t3: "validateRequiredVariables (t_variables ?leaf) Map.empty = []"
    by (simp add: validateRequiredVariables_def)
  have t4: "\<forall>t2 \<in> set (t_tasks ?leaf). templateRefOf ?C t2 Map.empty = None"
    by (simp add: templateRefOf_def transformedMetadata_def blueprint_def)
  have t5: "accepting ?C" by (simp add: accepting_def rj)
  have t6: "length (dependencyGraph ?C (t_tasks ?leaf) Map.empty (Some ''mount'')) < 3"
    by code_simp
  from total t1 t2 g v t3 t4 t5 t6
  have t: "\<exists>m'. instantiateTemplate 4 ?C mountedBefore nestedRequest = Some (Inr (), m')"
    by blast
  have "stored mounted = [groupTask, leafTask]" by (simp add: mounted_def)
  with groupBlueprint_ref run r t show ?thesis by blast
qed

text \<open>
  Claim C9. A call rejected by the reentrancy check returns the manager as it found it: the set,
  the store and the log of calls are unchanged, so the id entered by the call in flight is still
  in the set.
\<close>

theorem rejected_call_changes_nothing:
  assumes "templateId opts \<in> processingTemplates m"
  shows "instantiateTemplate (Suc n) C m opts =
           Some (Inl (CircularTemplateReference (templateId opts)), m) \<and>
         (\<forall>k r m'. instantiateTemplate k C m opts = Some (r, m') \<longrightarrow>
            r = Inl (CircularTemplateReference (templateId opts)) \<and> m' = m \<and>
            templateId opts \<in> processingTemplates m')"
proof -
  have "r = Inl (CircularTemplateReference (templateId opts)) \<and> m' = m \<and>
        templateId opts \<in> processingTemplates m'"
    if "instantiateTemplate k C m opts = Some (r, m')" for k r m'
    using that assms by (cases k) auto
  with assms show ?thesis by simp
qed

theorem rejected_call_changes_nothing_witness:
  "templateId (request ''T1'') \<in> processingTemplates inFlight \<and>
   instantiateTemplate 3 exampleCollaborators inFlight (request ''T1'') =
     Some (Inl (CircularTemplateReference ''T1''), inFlight) \<and>
   stored inFlight = [mountTask] \<and> ''T1'' \<in> processingTemplates inFlight"
proof -
  have b: "templateId (request ''T1'') \<in> processingTemplates inFlight"
    by (simp add: request_def inFlight_def)
  from rejected_call_changes_nothing[OF b, of 2 exampleCollaborators]
  have "instantiateTemplate 3 exampleCollaborators inFlight (request ''T1'') =
     Some (Inl (CircularTemplateReference (templateId (request ''T1''))), inFlight)"
    by (simp add: numeral_3_eq_3)
  with b show ?thesis by (simp add: request_def inFlight_def)
qed

end
